theory Spec2Isabelle
  imports Complex_Main
begin

section \<open>Numbers and strings\<close>

text \<open>
  A JavaScript number is an IEEE 754 double. The model writes it as the real number it
  stands for, and every arithmetic operation of the source as the exact operation
  followed by \<open>roundDouble\<close>: rounding to the nearest number with a significand of 53
  bits, a tie going to the even significand. A decimal literal and the result of
  \<open>parseFloat\<close> are the rounded decimal. The exponent is not bounded: a magnitude of
  \<open>2^1024\<close> or more is how the model writes an infinity (it compares with every finite
  number as the infinity does), and no operation of the functions below underflows on
  doubles. NaN is outside the model; where the source turns a missing or unparsable
  number into \<open>0\<close> (\<open>parseFloat(x) || 0\<close>) the input is a \<^typ>\<open>real option\<close> and the
  model does the same.
\<close>

fun bitLength :: "nat \<Rightarrow> nat" where
  "bitLength n = (if n = 0 then 0 else Suc (bitLength (n div 2)))"

declare bitLength.simps [simp del]

text \<open>The exponent \<open>e\<close> with \<open>2^e \<le> x < 2^(e+1)\<close>, for \<open>x > 0\<close>.\<close>

definition floorLog2 :: "real \<Rightarrow> int" where
  "floorLog2 x =
     (if 1 \<le> x then int (bitLength (nat \<lfloor>x\<rfloor>)) - 1
      else (let k = bitLength (nat \<lfloor>1 / x\<rfloor>)
            in if x * 2 ^ (k - 1) = 1 then - int (k - 1) else - int k))"

definition roundHalfEven :: "real \<Rightarrow> int" where
  "roundHalfEven m =
     (let f = \<lfloor>m\<rfloor>
      in if m - of_int f < 1 / 2 then f
         else if 1 / 2 < m - of_int f then f + 1
         else if even f then f else f + 1)"

definition roundDouble :: "real \<Rightarrow> real" where
  "roundDouble x =
     (if x = 0 then 0
      else
        (let e = floorLog2 \<bar>x\<bar>
         in if e \<le> 52
            then sgn x * of_int (roundHalfEven (\<bar>x\<bar> * 2 ^ nat (52 - e))) / 2 ^ nat (52 - e)
            else sgn x * of_int (roundHalfEven (\<bar>x\<bar> / 2 ^ nat (e - 52))) * 2 ^ nat (e - 52)))"

text \<open>
  Strings are ASCII, as token addresses, chain ids and chat ids are. On them
  \<open>String.prototype.toLowerCase\<close> maps the letters A to Z to a to z and leaves every
  other character.
\<close>

definition lowerChar :: "char \<Rightarrow> char" where
  "lowerChar c =
     (case map_of (zip ''ABCDEFGHIJKLMNOPQRSTUVWXYZ'' ''abcdefghijklmnopqrstuvwxyz'') c of
        None \<Rightarrow> c
      | Some l \<Rightarrow> l)"

definition toLowerCase :: "string \<Rightarrow> string" where
  "toLowerCase s = map lowerChar s"

section \<open>watchlist.js: the JSON-file store\<close>

record WatchlistEntry =
  tokenAddress :: string
  chainId :: string
  name :: string
  symbol :: string
  dropThreshold :: real
  lastAlertPrice :: real
  initialPrice :: real
  addedAt :: string
  chatId :: string

text \<open>
  The store of \<open>telegram-memecoin-bot/src/watchlist.js\<close>, which keeps the entries in a
  JSON file and reads and writes the whole array in every operation. (The MongoDB
  variant of the module hands the same operations to a collection with a unique index
  on the key.)

  The file \<open>data/watchlist.json\<close>: \<open>content\<close> is the parsed array, or \<open>None\<close> when
  the file is absent or cannot be read or parsed; \<open>writable\<close> tells whether
  \<open>writeFileSync\<close> succeeds. Both failures are caught by the source and logged.
\<close>

record disk =
  content :: "WatchlistEntry list option"
  writable :: bool

definition loadWatchlist :: "disk \<Rightarrow> WatchlistEntry list" where
  "loadWatchlist d = (case content d of Some wl \<Rightarrow> wl | None \<Rightarrow> [])"

definition saveWatchlist :: "WatchlistEntry list \<Rightarrow> disk \<Rightarrow> disk" where
  "saveWatchlist wl d = (if writable d then d\<lparr>content := Some wl\<rparr> else d)"

text \<open>The predicate the store's \<open>some\<close>, \<open>filter\<close> and \<open>find\<close> calls share.\<close>

definition sameKey :: "string \<Rightarrow> string \<Rightarrow> string \<Rightarrow> WatchlistEntry \<Rightarrow> bool" where
  "sameKey address chain chat e \<longleftrightarrow>
     toLowerCase (tokenAddress e) = toLowerCase address \<and>
     toLowerCase (chainId e) = toLowerCase chain \<and>
     chatId e = chat"

text \<open>
  \<open>addToWatchlist\<close>: \<open>threshold\<close> is \<open>None\<close> when the caller leaves \<open>dropThreshold\<close>
  undefined (default 5); \<open>now\<close> is \<open>new Date().toISOString()\<close>. The result is the
  returned entry (\<open>None\<close> for \<open>null\<close>) and the disk afterwards.
\<close>

definition addToWatchlist ::
  "string \<Rightarrow> string \<Rightarrow> string \<Rightarrow> string \<Rightarrow> real \<Rightarrow> real option \<Rightarrow> string \<Rightarrow> string \<Rightarrow>
   disk \<Rightarrow> WatchlistEntry option \<times> disk" where
  "addToWatchlist address chain nm smb currentPrice threshold chat now d =
     (let watchlist = loadWatchlist d;
          normalizedAddress = toLowerCase address;
          exists = list_ex (sameKey address chain chat) watchlist
      in if exists then (None, d)
         else
           (let entry = \<lparr>tokenAddress = normalizedAddress,
                         chainId = toLowerCase chain,
                         name = nm,
                         symbol = smb,
                         dropThreshold = (case threshold of None \<Rightarrow> 5 | Some t \<Rightarrow> t),
                         lastAlertPrice = currentPrice,
                         initialPrice = currentPrice,
                         addedAt = now,
                         chatId = chat\<rparr>
            in (Some entry, saveWatchlist (watchlist @ [entry]) d)))"

definition removeFromWatchlist :: "string \<Rightarrow> string \<Rightarrow> string \<Rightarrow> disk \<Rightarrow> bool \<times> disk" where
  "removeFromWatchlist address chain chat d =
     (let watchlist = loadWatchlist d;
          filtered = filter (\<lambda>e. \<not> sameKey address chain chat e) watchlist
      in if length filtered < length watchlist then (True, saveWatchlist filtered d)
         else (False, d))"

definition getWatchlistForChat :: "string \<Rightarrow> disk \<Rightarrow> WatchlistEntry list" where
  "getWatchlistForChat chat d = filter (\<lambda>e. chatId e = chat) (loadWatchlist d)"

definition getAllWatchlist :: "disk \<Rightarrow> WatchlistEntry list" where
  "getAllWatchlist d = loadWatchlist d"

text \<open>
  \<open>watchlist.find(p)\<close> followed by an assignment to a field of the entry found: the
  first entry that satisfies \<open>p\<close> is changed in place; \<open>None\<close> when \<open>find\<close> returns
  \<open>undefined\<close>.
\<close>

fun updateFirst :: "('a \<Rightarrow> bool) \<Rightarrow> ('a \<Rightarrow> 'a) \<Rightarrow> 'a list \<Rightarrow> 'a list option" where
  "updateFirst p f [] = None"
| "updateFirst p f (x # xs) =
     (if p x then Some (f x # xs)
      else (case updateFirst p f xs of None \<Rightarrow> None | Some ys \<Rightarrow> Some (x # ys)))"

definition updateLastAlertPrice :: "string \<Rightarrow> string \<Rightarrow> string \<Rightarrow> real \<Rightarrow> disk \<Rightarrow> disk" where
  "updateLastAlertPrice address chain chat newPrice d =
     (case updateFirst (sameKey address chain chat) (\<lambda>e. e\<lparr>lastAlertPrice := newPrice\<rparr>)
             (loadWatchlist d) of
        None \<Rightarrow> d
      | Some watchlist \<Rightarrow> saveWatchlist watchlist d)"

definition updateThreshold :: "string \<Rightarrow> string \<Rightarrow> string \<Rightarrow> real \<Rightarrow> disk \<Rightarrow> bool \<times> disk" where
  "updateThreshold address chain chat newThreshold d =
     (case updateFirst (sameKey address chain chat) (\<lambda>e. e\<lparr>dropThreshold := newThreshold\<rparr>)
             (loadWatchlist d) of
        None \<Rightarrow> (False, d)
      | Some watchlist \<Rightarrow> (True, saveWatchlist watchlist d))"

text \<open>
  The identity of an entry, as the store compares it: address and chain in lower case,
  and the chat. \<open>uniqueKeys\<close> is the store's invariant: no two entries share it.
\<close>

definition entryKey :: "WatchlistEntry \<Rightarrow> string \<times> string \<times> string" where
  "entryKey e = (toLowerCase (tokenAddress e), toLowerCase (chainId e), chatId e)"

definition uniqueKeys :: "WatchlistEntry list \<Rightarrow> bool" where
  "uniqueKeys wl = distinct (map entryKey wl)"

text \<open>The price invariant of the data model: reference and initial price are positive.\<close>

definition positivePrices :: "WatchlistEntry list \<Rightarrow> bool" where
  "positivePrices wl = list_all (\<lambda>e. 0 < lastAlertPrice e \<and> 0 < initialPrice e) wl"

section \<open>dexscreener.js: the market-data client\<close>

text \<open>
  One element of the array the upstream API answers with. A field is \<open>None\<close> when it
  is missing from the JSON (\<open>pair_priceUsd\<close>: when \<open>parseFloat\<close> gives NaN).
\<close>

record Pair =
  pair_baseAddress :: "string option"
  pair_baseName :: "string option"
  pair_baseSymbol :: "string option"
  pair_priceUsd :: "real option"
  pair_marketCap :: "real option"
  pair_fdv :: "real option"
  pair_liquidityUsd :: "real option"
  pair_priceChangeH24 :: "real option"
  pair_dexId :: "string option"
  pair_pairAddress :: "string option"
  pair_url :: "string option"

record TokenData =
  tokenName :: string
  tokenSymbol :: string
  priceUsd :: real
  marketCap :: real
  liquidity :: real
  priceChange24h :: real
  dexId :: string
  pairAddress :: string
  url :: string

text \<open>\<open>x || d\<close> on a number (falsy: missing, NaN, 0) and on a string (falsy: missing, empty).\<close>

definition orNum :: "real option \<Rightarrow> real \<Rightarrow> real" where
  "orNum x d = (case x of None \<Rightarrow> d | Some v \<Rightarrow> if v = 0 then d else v)"

definition orStr :: "string option \<Rightarrow> string \<Rightarrow> string" where
  "orStr x d = (case x of None \<Rightarrow> d | Some v \<Rightarrow> if v = [] then d else v)"

text \<open>The object literal both fetch functions build from the best pair.\<close>

definition toTokenData :: "string \<Rightarrow> string \<Rightarrow> Pair \<Rightarrow> TokenData" where
  "toTokenData chain addr bestPair =
     \<lparr>tokenName = orStr (pair_baseName bestPair) ''Unknown'',
      tokenSymbol = orStr (pair_baseSymbol bestPair) ''UNKNOWN'',
      priceUsd = orNum (pair_priceUsd bestPair) 0,
      marketCap = orNum (pair_marketCap bestPair) (orNum (pair_fdv bestPair) 0),
      liquidity = orNum (pair_liquidityUsd bestPair) 0,
      priceChange24h = orNum (pair_priceChangeH24 bestPair) 0,
      dexId = orStr (pair_dexId bestPair) ''unknown'',
      pairAddress = orStr (pair_pairAddress bestPair) [],
      url = orStr (pair_url bestPair) (''https://dexscreener.com/'' @ chain @ ''/'' @ addr)\<rparr>"

definition pickBest :: "Pair \<Rightarrow> Pair \<Rightarrow> Pair" where
  "pickBest best current =
     (if orNum (pair_liquidityUsd current) 0 > orNum (pair_liquidityUsd best) 0
      then current else best)"

text \<open>\<open>pairs.reduce(pickBest, pairs[0])\<close>; the source calls it on non-empty arrays only.\<close>

fun bestPairOf :: "Pair list \<Rightarrow> Pair option" where
  "bestPairOf [] = None"
| "bestPairOf (p # ps) = Some (foldl pickBest p (p # ps))"

text \<open>
  The upstream API: the answer to a GET for a chain and a comma-joined address list.
  \<open>None\<close> is a request that throws (transport error, timeout); an answer with no
  data is \<open>Some []\<close>.
\<close>

type_synonym upstream = "string \<Rightarrow> string list \<Rightarrow> Pair list option"

definition getTokenData :: "upstream \<Rightarrow> string \<Rightarrow> string \<Rightarrow> TokenData option" where
  "getTokenData api chain address =
     (case api chain [address] of
        None \<Rightarrow> None
      | Some pairs \<Rightarrow>
          (case bestPairOf pairs of
             None \<Rightarrow> None
           | Some bestPair \<Rightarrow> Some (toTokenData chain address bestPair)))"

text \<open>
  A JavaScript \<open>Map\<close> from keys to arrays, in insertion order:
  \<open>if (!m.has(k)) m.set(k, []); m.get(k).push(v)\<close>.
\<close>

fun pushTo :: "'k \<Rightarrow> 'v \<Rightarrow> ('k \<times> 'v list) list \<Rightarrow> ('k \<times> 'v list) list" where
  "pushTo k v [] = [(k, [v])]"
| "pushTo k v ((k', vs) # m) = (if k' = k then (k', vs @ [v]) # m else (k', vs) # pushTo k v m)"

text \<open>\<open>pair.baseToken?.address?.toLowerCase()\<close>, kept when truthy.\<close>

definition pairKey :: "Pair \<Rightarrow> string option" where
  "pairKey p =
     (case pair_baseAddress p of
        None \<Rightarrow> None
      | Some a \<Rightarrow> if toLowerCase a = [] then None else Some (toLowerCase a))"

definition pairsByToken :: "Pair list \<Rightarrow> (string \<times> Pair list) list" where
  "pairsByToken pairs =
     foldl (\<lambda>m p. case pairKey p of None \<Rightarrow> m | Some addr \<Rightarrow> pushTo addr p m) [] pairs"

definition setBest ::
  "string \<Rightarrow> (string \<rightharpoonup> TokenData) \<Rightarrow> string \<times> Pair list \<Rightarrow> (string \<rightharpoonup> TokenData)" where
  "setBest chain results g =
     (case bestPairOf (snd g) of
        None \<Rightarrow> results
      | Some bestPair \<Rightarrow> results(fst g \<mapsto> toTokenData chain (fst g) bestPair))"

text \<open>What one batch adds to \<open>results\<close>: nothing when the request throws or is empty.\<close>

definition batchResults ::
  "upstream \<Rightarrow> string \<Rightarrow> string list \<Rightarrow> (string \<rightharpoonup> TokenData) \<Rightarrow> (string \<rightharpoonup> TokenData)" where
  "batchResults api chain batch results =
     (case api chain batch of
        None \<Rightarrow> results
      | Some pairs \<Rightarrow> foldl (setBest chain) results (pairsByToken pairs))"

text \<open>What the function does to the outside world, in order.\<close>

datatype request = Get string "string list" | Sleep nat

definition batchSize :: nat where
  "batchSize = 30"

text \<open>The \<open>for (let i = 0; i < tokenAddresses.length; i += batchSize)\<close> loop.\<close>

function batchLoop ::
  "upstream \<Rightarrow> string \<Rightarrow> string list \<Rightarrow> nat \<Rightarrow>
   (string \<rightharpoonup> TokenData) \<times> request list \<Rightarrow> (string \<rightharpoonup> TokenData) \<times> request list" where
  "batchLoop api chain tokenAddresses i acc =
     (if i < length tokenAddresses then
        (let batch = take batchSize (drop i tokenAddresses);
             results = batchResults api chain batch (fst acc);
             pause = (if i + batchSize < length tokenAddresses then [Sleep 250] else [])
         in batchLoop api chain tokenAddresses (i + batchSize)
              (results, snd acc @ [Get chain batch] @ pause))
      else acc)"
  by pat_completeness auto
termination
  by (relation "measure (\<lambda>(api, chain, tokenAddresses, i, acc). length tokenAddresses - i)")
     (auto simp: batchSize_def)

declare batchLoop.simps [simp del]

definition getMultipleTokensData ::
  "upstream \<Rightarrow> string \<Rightarrow> string list \<Rightarrow> (string \<rightharpoonup> TokenData) \<times> request list" where
  "getMultipleTokensData api chain tokenAddresses =
     batchLoop api chain tokenAddresses 0 (Map.empty, [])"

text \<open>
  The batching as the specification words it, to compare the loop with: the address
  list cut into successive batches of at most \<open>n\<close> addresses, and the requests for a
  list of batches with a pause of 250 ms between two successive calls.
\<close>

function batchesOf :: "nat \<Rightarrow> 'a list \<Rightarrow> 'a list list" where
  "batchesOf n xs = (if n = 0 \<or> xs = [] then [] else take n xs # batchesOf n (drop n xs))"
  by pat_completeness auto
termination
  by (relation "measure (\<lambda>(n, xs). length xs)") auto

declare batchesOf.simps [simp del]

fun pacedRequests :: "string \<Rightarrow> string list list \<Rightarrow> request list" where
  "pacedRequests chain [] = []"
| "pacedRequests chain [batch] = [Get chain batch]"
| "pacedRequests chain (batch # batches) = Get chain batch # Sleep 250 # pacedRequests chain batches"

text \<open>\<open>m.get(k)\<close> on a map of arrays, with the empty array for a missing key.\<close>

definition groupOf :: "('k \<times> 'v list) list \<Rightarrow> 'k \<Rightarrow> 'v list" where
  "groupOf m k = (case map_of m k of None \<Rightarrow> [] | Some vs \<Rightarrow> vs)"

section \<open>priceMonitor.js: the alert evaluator\<close>

text \<open>
  An exception is a value: a function that can throw returns \<open>jsError + 'a\<close>. The
  Telegram bot is the function \<open>sendMessage\<close>, told what the alert text is built from
  (the chat, the entry, the token data and the percent change); the text itself is not
  rendered. The console is kept as a list of the lines the monitor prints.
\<close>

datatype jsError = JsError string

record alert =
  alertChat :: string
  alertEntry :: WatchlistEntry
  alertData :: TokenData
  alertChange :: real

type_synonym telegram = "alert \<Rightarrow> jsError + unit"

datatype logLine =
  LogChecking nat
| LogNoData string string
| LogDetected string real
| ErrBotNotInitialized
| ErrSendingAlert string

record world =
  store :: disk
  delivered :: "alert list"
  console :: "logLine list"
  network :: "request list"

definition sendPriceAlert ::
  "telegram option \<Rightarrow> WatchlistEntry \<Rightarrow> TokenData \<Rightarrow> real \<Rightarrow> world \<Rightarrow> jsError + world" where
  "sendPriceAlert tgBot entry tokenData percentChange w =
     (case tgBot of
        None \<Rightarrow> Inr (w\<lparr>console := console w @ [ErrBotNotInitialized]\<rparr>)
      | Some sendMessage \<Rightarrow>
          (let message = \<lparr>alertChat = chatId entry, alertEntry = entry,
                          alertData = tokenData, alertChange = percentChange\<rparr>
           in case sendMessage message of
                Inr u \<Rightarrow> Inr (w\<lparr>delivered := delivered w @ [message]\<rparr>)
              | Inl error \<Rightarrow> Inr (w\<lparr>console := console w @ [ErrSendingAlert (chatId entry)]\<rparr>)))"

text \<open>\<open>((currentPrice - lastAlertPrice) / lastAlertPrice) * 100\<close>, each operation rounded.\<close>

definition percentChangeOf :: "real \<Rightarrow> real \<Rightarrow> real" where
  "percentChangeOf currentPrice lastPrice =
     roundDouble (roundDouble (roundDouble (currentPrice - lastPrice) / lastPrice) * 100)"

text \<open>The body of \<open>for (const entry of entries)\<close> in \<open>checkPrices\<close>.\<close>

definition checkEntry ::
  "telegram option \<Rightarrow> (string \<rightharpoonup> TokenData) \<Rightarrow> WatchlistEntry \<Rightarrow> world \<Rightarrow> jsError + world" where
  "checkEntry tgBot tokenDataMap entry w =
     (case tokenDataMap (toLowerCase (tokenAddress entry)) of
        None \<Rightarrow> Inr (w\<lparr>console := console w @ [LogNoData (symbol entry) (chainId entry)]\<rparr>)
      | Some tokenData \<Rightarrow>
          (let currentPrice = priceUsd tokenData;
               lastPrice = lastAlertPrice entry
           in if lastPrice \<le> 0 \<or> currentPrice \<le> 0 then Inr w
              else
                (let percentChange = percentChangeOf currentPrice lastPrice;
                     absChange = \<bar>percentChange\<bar>
                 in if absChange \<ge> dropThreshold entry then
                      (case sendPriceAlert tgBot entry tokenData percentChange
                              (w\<lparr>console := console w @ [LogDetected (symbol entry) percentChange]\<rparr>) of
                         Inl error \<Rightarrow> Inl error
                       | Inr w' \<Rightarrow>
                           Inr (w'\<lparr>store := updateLastAlertPrice (tokenAddress entry)
                                               (chainId entry) (chatId entry) currentPrice
                                               (store w')\<rparr>))
                    else Inr w)))"

fun entryLoop ::
  "telegram option \<Rightarrow> (string \<rightharpoonup> TokenData) \<Rightarrow> WatchlistEntry list \<Rightarrow> world \<Rightarrow> jsError + world" where
  "entryLoop tgBot tokenDataMap [] w = Inr w"
| "entryLoop tgBot tokenDataMap (entry # entries) w =
     (case checkEntry tgBot tokenDataMap entry w of
        Inl error \<Rightarrow> Inl error
      | Inr w' \<Rightarrow> entryLoop tgBot tokenDataMap entries w')"

definition entriesByChain :: "WatchlistEntry list \<Rightarrow> (string \<times> WatchlistEntry list) list" where
  "entriesByChain allEntries = foldl (\<lambda>m entry. pushTo (chainId entry) entry m) [] allEntries"

fun chainLoop ::
  "upstream \<Rightarrow> telegram option \<Rightarrow> (string \<times> WatchlistEntry list) list \<Rightarrow> world \<Rightarrow>
   jsError + world" where
  "chainLoop api tgBot [] w = Inr w"
| "chainLoop api tgBot ((chain, entries) # groups) w =
     (let addresses = map tokenAddress entries;
          fetched = getMultipleTokensData api chain addresses;
          w1 = w\<lparr>network := network w @ snd fetched\<rparr>
      in case entryLoop tgBot (fst fetched) entries w1 of
           Inl error \<Rightarrow> Inl error
         | Inr w' \<Rightarrow> chainLoop api tgBot groups w')"

definition checkPrices :: "upstream \<Rightarrow> telegram option \<Rightarrow> world \<Rightarrow> jsError + world" where
  "checkPrices api tgBot w =
     (let allEntries = getAllWatchlist (store w)
      in if length allEntries = 0 then Inr w
         else chainLoop api tgBot (entriesByChain allEntries)
                (w\<lparr>console := console w @ [LogChecking (length allEntries)]\<rparr>))"

text \<open>
  The percent changes of the alerts fired so far, read off the console: the source
  prints the \<open>Price up/down detected\<close> line exactly when the threshold test passes.
\<close>

fun firedAlerts :: "logLine list \<Rightarrow> real list" where
  "firedAlerts [] = []"
| "firedAlerts (LogDetected s p # ls) = p # firedAlerts ls"
| "firedAlerts (l # ls) = firedAlerts ls"

section \<open>bot/processors.js: the add path\<close>

text \<open>
  What \<open>processAdd\<close> tells the chat, and what it leaves on the disk. The bot's
  \<open>sendMessage\<close> is taken to resolve; the texts are named, not rendered. \<open>chat\<close> is
  \<open>String(chatId)\<close>.
\<close>

datatype reply =
  FetchingTokenData
| TokenNotFound
| AlreadyInWatchlist
| TokenAdded TokenData real string

definition processAdd ::
  "upstream \<Rightarrow> string \<Rightarrow> string \<Rightarrow> string \<Rightarrow> real \<Rightarrow> string \<Rightarrow> disk \<Rightarrow> reply list \<times> disk" where
  "processAdd api chat chain address threshold now d =
     (case getTokenData api chain address of
        None \<Rightarrow> ([FetchingTokenData, TokenNotFound], d)
      | Some tokenData \<Rightarrow>
          (case addToWatchlist address chain (tokenName tokenData) (tokenSymbol tokenData)
                  (priceUsd tokenData) (Some threshold) chat now d of
             (None, d') \<Rightarrow> ([FetchingTokenData, AlreadyInWatchlist], d')
           | (Some entry, d') \<Rightarrow>
               ([FetchingTokenData, TokenAdded tokenData threshold chain], d')))"

section \<open>priceMonitor.js: the polling scheduler\<close>

text \<open>
  The timers of the event loop, in milliseconds. A timer made by \<open>setTimeout\<close> has no
  period and fires once; one made by \<open>setInterval\<close> fires every \<open>period\<close>. Both timers
  of the monitor call \<open>checkPrices\<close>, so a firing is recorded as the time at which a
  sweep starts. \<open>monitorInterval\<close> and \<open>monitorBot\<close> are the two variables of the module.
\<close>

record timer =
  timerId :: nat
  due :: nat
  period :: "nat option"

record scheduler =
  clock :: nat
  timers :: "timer list"
  nextId :: nat
  monitorInterval :: "nat option"
  monitorBot :: "telegram option"
  started :: "nat list"

text \<open>
  The delay a timer of Node.js runs with: a delay below 1 ms or above \<open>2^31 - 1\<close> ms is
  set to 1 ms.
\<close>

definition timerDelay :: "nat \<Rightarrow> nat" where
  "timerDelay ms = (if ms < 1 \<or> 2147483647 < ms then 1 else ms)"

definition setTimeout :: "nat \<Rightarrow> scheduler \<Rightarrow> nat \<times> scheduler" where
  "setTimeout delay s =
     (nextId s,
      s\<lparr>timers := timers s @
           [\<lparr>timerId = nextId s, due = clock s + timerDelay delay, period = None\<rparr>],
        nextId := nextId s + 1\<rparr>)"

definition setInterval :: "nat \<Rightarrow> scheduler \<Rightarrow> nat \<times> scheduler" where
  "setInterval ms s =
     (nextId s,
      s\<lparr>timers := timers s @
           [\<lparr>timerId = nextId s, due = clock s + timerDelay ms,
             period = Some (timerDelay ms)\<rparr>],
        nextId := nextId s + 1\<rparr>)"

definition clearInterval :: "nat \<Rightarrow> scheduler \<Rightarrow> scheduler" where
  "clearInterval handle s = s\<lparr>timers := filter (\<lambda>t. timerId t \<noteq> handle) (timers s)\<rparr>"

text \<open>\<open>intervalMs\<close> is \<open>None\<close> when the caller leaves it out (default 60000).\<close>

definition startMonitor :: "telegram option \<Rightarrow> nat option \<Rightarrow> scheduler \<Rightarrow> scheduler" where
  "startMonitor telegramBot intervalMs s =
     (let s1 = s\<lparr>monitorBot := telegramBot\<rparr>;
          s2 = (case monitorInterval s1 of None \<Rightarrow> s1 | Some handle \<Rightarrow> clearInterval handle s1);
          s3 = snd (setTimeout 5000 s2);
          interval = setInterval (case intervalMs of None \<Rightarrow> 60000 | Some ms \<Rightarrow> ms) s3
      in (snd interval)\<lparr>monitorInterval := Some (fst interval)\<rparr>)"

definition stopMonitor :: "scheduler \<Rightarrow> scheduler" where
  "stopMonitor s =
     (case monitorInterval s of
        None \<Rightarrow> s
      | Some handle \<Rightarrow> (clearInterval handle s)\<lparr>monitorInterval := None\<rparr>)"

text \<open>
  One millisecond of the event loop: every timer that is due fires; a timeout is
  dropped, an interval is armed again.
\<close>

definition fire :: "nat \<Rightarrow> timer \<Rightarrow> timer list" where
  "fire t tm =
     (if due tm \<le> t
      then (case period tm of None \<Rightarrow> [] | Some p \<Rightarrow> [tm\<lparr>due := t + p\<rparr>])
      else [tm])"

definition tick :: "scheduler \<Rightarrow> scheduler" where
  "tick s =
     (let t = clock s + 1
      in s\<lparr>clock := t,
           timers := concat (map (fire t) (timers s)),
           started := started s @ replicate (length (filter (\<lambda>tm. due tm \<le> t) (timers s))) t\<rparr>)"

primrec advance :: "nat \<Rightarrow> scheduler \<Rightarrow> scheduler" where
  "advance 0 s = s"
| "advance (Suc n) s = advance n (tick s)"

definition idleScheduler :: scheduler where
  "idleScheduler =
     \<lparr>clock = 0, timers = [], nextId = 0, monitorInterval = None, monitorBot = None, started = []\<rparr>"

section \<open>dexscreener.js: formatting\<close>

text \<open>
  The number-to-string methods of JavaScript that the formatters call. ECMA-262 and
  ECMA-402 define them on the exact value of the double: \<open>toFixed(d)\<close> prints the integer
  \<open>n\<close> for which \<open>n / 10^d\<close> is closest to the value, the larger one on a tie, with \<open>d\<close>
  digits after the point; \<open>toExponential(f)\<close> prints \<open>f + 1\<close> significant digits chosen
  the same way;
  \<open>toLocaleString('en-US', {minimumFractionDigits: 2, maximumFractionDigits: 2})\<close>
  prints two fraction digits and groups the integer digits in threes. From a magnitude
  of \<open>10^21\<close> on \<open>toFixed\<close> prints the exponent form of \<open>toString\<close> instead; \<open>toFixed\<close>
  below is the method for magnitudes under \<open>10^21\<close> only, and nothing is stated about it
  beyond.
\<close>

definition digit :: "nat \<Rightarrow> char" where
  "digit d = ''0123456789'' ! d"

fun digitsOf :: "nat \<Rightarrow> string" where
  "digitsOf n = (if n < 10 then [digit n] else digitsOf (n div 10) @ [digit (n mod 10)])"

declare digitsOf.simps [simp del]

primrec fracDigits :: "nat \<Rightarrow> nat \<Rightarrow> string" where
  "fracDigits 0 m = []"
| "fracDigits (Suc d) m = fracDigits d (m div 10) @ [digit (m mod 10)]"

definition signOf :: "real \<Rightarrow> string" where
  "signOf x = (if x < 0 then ''-'' else [])"

definition toFixed :: "nat \<Rightarrow> real \<Rightarrow> string" where
  "toFixed d x =
     (let n = nat \<lfloor>\<bar>x\<bar> * 10 ^ d + 1 / 2\<rfloor>
      in signOf x @ digitsOf (n div 10 ^ d) @
         (if d = 0 then [] else ''.'' @ fracDigits d (n mod 10 ^ d)))"

text \<open>The exponent \<open>e\<close> with \<open>10^e \<le> x < 10^(e+1)\<close>, for \<open>x > 0\<close>.\<close>

definition floorLog10 :: "real \<Rightarrow> int" where
  "floorLog10 x =
     (if 1 \<le> x then int (length (digitsOf (nat \<lfloor>x\<rfloor>))) - 1
      else (let k = length (digitsOf (nat \<lfloor>1 / x\<rfloor>))
            in if x * 10 ^ (k - 1) = 1 then - int (k - 1) else - int k))"

definition toExponential :: "nat \<Rightarrow> real \<Rightarrow> string" where
  "toExponential f x =
     (if x = 0 then ''0'' @ (if f = 0 then [] else ''.'' @ replicate f (CHR ''0'')) @ ''e+0''
      else
        (let a = \<bar>x\<bar>;
             e0 = floorLog10 a;
             scaled = (if e0 \<le> int f then a * 10 ^ nat (int f - e0) else a / 10 ^ nat (e0 - int f));
             n0 = nat \<lfloor>scaled + 1 / 2\<rfloor>;
             n = (if n0 = 10 ^ (f + 1) then 10 ^ f else n0);
             e = (if n0 = 10 ^ (f + 1) then e0 + 1 else e0);
             ds = digitsOf n
         in signOf x @ take 1 ds @ (if f = 0 then [] else ''.'' @ drop 1 ds) @ ''e'' @
            (if e < 0 then ''-'' else ''+'') @ digitsOf (nat \<bar>e\<bar>)))"

fun groupRev :: "string \<Rightarrow> string" where
  "groupRev (a # b # c # d # rest) = a # b # c # CHR '','' # groupRev (d # rest)"
| "groupRev ds = ds"

definition groupThousands :: "string \<Rightarrow> string" where
  "groupThousands ds = rev (groupRev (rev ds))"

definition toLocaleString2 :: "real \<Rightarrow> string" where
  "toLocaleString2 x =
     (let n = nat \<lfloor>\<bar>x\<bar> * 100 + 1 / 2\<rfloor>
      in signOf x @ groupThousands (digitsOf (n div 100)) @ ''.'' @ fracDigits 2 (n mod 100))"

text \<open>
  \<open>s.replace(/\.?0+$/, '')\<close>: when the string ends in zeros they are removed, together
  with a point that stands right before them; otherwise the string is left as it is.
\<close>

definition stripZeros :: "string \<Rightarrow> string" where
  "stripZeros s =
     (let t = rev (dropWhile (\<lambda>c. c = CHR ''0'') (rev s))
      in if t = s then s
         else if t \<noteq> [] \<and> last t = CHR ''.'' then butlast t
         else t)"

text \<open>
  The thresholds \<open>0.00000001\<close> and \<open>0.0001\<close> of the source are the doubles nearest to
  \<open>10^-8\<close> and \<open>10^-4\<close>; 1 and 1000 are doubles themselves.
\<close>

definition formatPrice :: "real \<Rightarrow> string" where
  "formatPrice price =
     (if price = 0 then ''$0.00''
      else if price < roundDouble (1 / 10 ^ 8) then ''$'' @ toExponential 4 price
      else if price < roundDouble (1 / 10 ^ 4) then ''$'' @ stripZeros (toFixed 10 price)
      else if price < 1 then ''$'' @ stripZeros (toFixed 6 price)
      else if price < 1000 then ''$'' @ toFixed 4 price
      else ''$'' @ toLocaleString2 price)"

text \<open>
  The argument is \<open>None\<close> when the caller passes \<open>undefined\<close>, \<open>null\<close> or NaN. The
  divisors \<open>1e12\<close>, \<open>1e9\<close>, \<open>1e6\<close> and \<open>1e3\<close> are doubles; the quotient is rounded.
\<close>

definition formatMarketCap :: "real option \<Rightarrow> string" where
  "formatMarketCap cap =
     (case cap of
        None \<Rightarrow> ''N/A''
      | Some m \<Rightarrow>
          if m = 0 then ''N/A''
          else if m \<ge> 10 ^ 12 then ''$'' @ toFixed 2 (roundDouble (m / 10 ^ 12)) @ ''T''
          else if m \<ge> 10 ^ 9 then ''$'' @ toFixed 2 (roundDouble (m / 10 ^ 9)) @ ''B''
          else if m \<ge> 10 ^ 6 then ''$'' @ toFixed 2 (roundDouble (m / 10 ^ 6)) @ ''M''
          else if m \<ge> 10 ^ 3 then ''$'' @ toFixed 2 (roundDouble (m / 10 ^ 3)) @ ''K''
          else ''$'' @ toFixed 2 m)"

text \<open>The number of characters after the last decimal point of a string.\<close>

definition decimals :: "string \<Rightarrow> nat" where
  "decimals s = length (takeWhile (\<lambda>c. c \<noteq> CHR ''.'') (rev s))"

section \<open>Sample data\<close>

text \<open>
  One entry (threshold 5, reference price 1.00), an upstream that answers every request
  with one pair for that token at a given price, and a world whose store holds the entry.
\<close>

definition sampleEntry :: WatchlistEntry where
  "sampleEntry =
     \<lparr>tokenAddress = ''abc'', chainId = ''solana'', name = ''Token'', symbol = ''TOK'',
      dropThreshold = 5, lastAlertPrice = 1, initialPrice = 1,
      addedAt = ''2024-01-01T00:00:00.000Z'', chatId = ''42''\<rparr>"

definition samplePair :: "real option \<Rightarrow> Pair" where
  "samplePair p =
     \<lparr>pair_baseAddress = Some ''ABC'', pair_baseName = Some ''Token'',
      pair_baseSymbol = Some ''TOK'', pair_priceUsd = p, pair_marketCap = None,
      pair_fdv = None, pair_liquidityUsd = None, pair_priceChangeH24 = None,
      pair_dexId = None, pair_pairAddress = None, pair_url = None\<rparr>"

definition sampleUpstream :: "real option \<Rightarrow> upstream" where
  "sampleUpstream p chain addresses = Some [samplePair p]"

definition sampleData :: "real \<Rightarrow> TokenData" where
  "sampleData p = toTokenData ''solana'' ''abc'' (samplePair (Some p))"

definition sampleDisk :: disk where
  "sampleDisk = \<lparr>content = Some [sampleEntry], writable = True\<rparr>"

definition sampleWorld :: world where
  "sampleWorld = \<lparr>store = sampleDisk, delivered = [], console = [], network = []\<rparr>"

definition emptyDisk :: disk where
  "emptyDisk = \<lparr>content = None, writable = True\<rparr>"

text \<open>A bot whose \<open>sendMessage\<close> resolves, and one whose \<open>sendMessage\<close> rejects.\<close>

definition workingBot :: telegram where
  "workingBot message = Inr ()"

definition failingBot :: telegram where
  "failingBot message = Inl (JsError ''ETELEGRAM'')"

text \<open>Two chats that track the same token on the same chain.\<close>

definition twoChatDisk :: disk where
  "twoChatDisk = \<lparr>content = Some [sampleEntry, sampleEntry\<lparr>chatId := ''43''\<rparr>], writable = True\<rparr>"

text \<open>An upstream that answers with a pair of another token than the one asked for.\<close>

definition strayPair :: Pair where
  "strayPair = (samplePair (Some 2))\<lparr>pair_baseAddress := Some ''XYZ''\<rparr>"

definition strayUpstream :: upstream where
  "strayUpstream chain addresses = Some [strayPair]"

section \<open>Properties of the double rounding\<close>

lemma bitLength_numeral [simp]:
  "bitLength 0 = 0"
  "bitLength (Suc 0) = 1"
  "bitLength (numeral k) = Suc (bitLength (numeral k div 2))"
  by (simp_all add: bitLength.simps)

lemma bitLength_pos: "0 < n \<Longrightarrow> 0 < bitLength n"
  by (subst bitLength.simps) simp

lemma bitLength_bounds:
  "0 < n \<Longrightarrow> 2 ^ (bitLength n - 1) \<le> n \<and> n < 2 ^ bitLength n"
proof (induction n rule: bitLength.induct)
  case (1 n)
  show ?case
  proof (cases "n < 2")
    case True
    with "1.prems" have "n = Suc 0" by simp
    then show ?thesis by simp
  next
    case False
    then have pos: "0 < n div 2" by simp
    from "1.prems" have nz: "n \<noteq> 0" by simp
    let ?k = "bitLength (n div 2)"
    from "1.IH" [OF nz pos] have lo: "2 ^ (?k - 1) \<le> n div 2" and hi: "n div 2 < 2 ^ ?k"
      by simp_all
    have k: "0 < ?k" using pos by (rule bitLength_pos)
    have len: "bitLength n = Suc ?k" using nz by (subst bitLength.simps) simp
    from lo have "2 * 2 ^ (?k - 1) \<le> n" by simp
    with k have "2 ^ ?k \<le> n" by (cases ?k) simp_all
    moreover from hi have "n < 2 * 2 ^ ?k" by simp
    ultimately show ?thesis by (simp add: len)
  qed
qed

lemma bitLength_floor_bounds:
  assumes "1 \<le> (y::real)"
  shows "2 ^ (bitLength (nat \<lfloor>y\<rfloor>) - 1) \<le> y \<and> y < 2 ^ bitLength (nat \<lfloor>y\<rfloor>)"
proof -
  let ?n = "nat \<lfloor>y\<rfloor>"
  let ?k = "bitLength ?n"
  from assms have n: "0 < ?n" by simp
  from bitLength_bounds [OF n] have lo: "2 ^ (?k - 1) \<le> ?n" and hi: "?n < 2 ^ ?k" by simp_all
  from lo have "real (2 ^ (?k - 1)) \<le> real ?n" by (simp only: of_nat_le_iff)
  also have "real ?n \<le> y" using assms by simp
  finally have a: "2 ^ (?k - 1) \<le> y" by simp
  from hi have "Suc ?n \<le> 2 ^ ?k" by (rule Suc_leI)
  then have "real (Suc ?n) \<le> real (2 ^ ?k)" by (simp only: of_nat_le_iff)
  moreover have "y < real (Suc ?n)"
  proof -
    have "0 \<le> \<lfloor>y\<rfloor>" using assms by simp
    then have eq: "real (Suc ?n) = of_int \<lfloor>y\<rfloor> + 1" by simp
    have "y < of_int \<lfloor>y\<rfloor> + 1" by linarith
    then show ?thesis unfolding eq .
  qed
  ultimately have b: "y < 2 ^ ?k" by simp
  from a b show ?thesis by simp
qed

lemma floorLog2_ge_one:
  assumes "1 \<le> x"
  shows "0 \<le> floorLog2 x \<and> 2 ^ nat (floorLog2 x) \<le> x \<and> x < 2 ^ Suc (nat (floorLog2 x))"
proof -
  let ?k = "bitLength (nat \<lfloor>x\<rfloor>)"
  from assms have "0 < nat \<lfloor>x\<rfloor>" by simp
  then have k: "0 < ?k" by (rule bitLength_pos)
  have "floorLog2 x = int ?k - 1" using assms by (simp add: floorLog2_def)
  with k have fl: "floorLog2 x = int (?k - 1)" by linarith
  from k have s: "Suc (?k - 1) = ?k" by simp
  from bitLength_floor_bounds [OF assms]
  have "2 ^ (?k - 1) \<le> x" and "x < 2 ^ Suc (?k - 1)" unfolding s by blast+
  then show ?thesis unfolding fl nat_int by simp
qed

lemma floorLog2_lt_one:
  assumes "0 < x" and "x < 1"
  shows "floorLog2 x < 0 \<and> 1 \<le> x * 2 ^ nat (- floorLog2 x) \<and>
         x * 2 ^ nat (- floorLog2 x) < 2"
proof -
  let ?k = "bitLength (nat \<lfloor>1 / x\<rfloor>)"
  from assms have y: "1 \<le> 1 / x" by simp
  then have "0 < nat \<lfloor>1 / x\<rfloor>" by simp
  then have "0 < ?k" by (rule bitLength_pos)
  then obtain m where m: "?k = Suc m" by (cases ?k) simp_all
  from bitLength_floor_bounds [OF y] have "2 ^ m \<le> 1 / x" and "1 / x < 2 ^ Suc m"
    unfolding m by simp_all
  with assms(1) have lo: "x * 2 ^ m \<le> 1" and hi: "1 < x * 2 ^ Suc m"
    by (simp_all add: field_simps)
  show ?thesis
  proof (cases "x * 2 ^ m = 1")
    case True
    have "floorLog2 x = - int (?k - 1)"
      using assms(2) True unfolding floorLog2_def Let_def m by simp
    then have fl: "floorLog2 x = - int m" unfolding m by simp
    have "m \<noteq> 0" using True assms(2) by (cases m) simp_all
    with True show ?thesis unfolding fl by simp
  next
    case False
    have "floorLog2 x = - int ?k"
      using assms(2) False unfolding floorLog2_def Let_def m by simp
    then have fl: "floorLog2 x = - int (Suc m)" unfolding m by simp
    from lo False have "x * 2 ^ m < 1" by simp
    then have up: "x * 2 ^ Suc m < 2" by simp
    have n: "nat (- (- int (Suc m))) = Suc m" by simp
    from hi up show ?thesis unfolding fl n by simp
  qed
qed

text \<open>The scaled magnitude that \<open>roundDouble\<close> rounds lies in \<open>[2^52, 2^53)\<close>.\<close>

lemma significand_low:
  assumes "0 < x" and "floorLog2 x \<le> 52"
  shows "2 ^ 52 \<le> x * 2 ^ nat (52 - floorLog2 x) \<and> x * 2 ^ nat (52 - floorLog2 x) < 2 ^ 53"
proof (cases "1 \<le> x")
  case True
  from floorLog2_ge_one [OF True] obtain k where k: "floorLog2 x = int k"
    and lo: "2 ^ k \<le> x" and hi: "x < 2 ^ Suc k"
    by (metis nat_0_le)
  from assms(2) k have k52: "k \<le> 52" by simp
  then have n: "nat (52 - floorLog2 x) = 52 - k" unfolding k by simp
  have p: "(2::real) ^ 52 = 2 ^ k * 2 ^ (52 - k)" using k52 by (simp add: power_add [symmetric])
  have q: "(2::real) ^ 53 = 2 ^ Suc k * 2 ^ (52 - k)"
    using k52 by (simp only: power_add [symmetric]) simp
  from lo have "2 ^ k * 2 ^ (52 - k) \<le> x * (2::real) ^ (52 - k)"
    by (rule mult_right_mono) simp
  moreover from hi have "x * (2::real) ^ (52 - k) < 2 ^ Suc k * 2 ^ (52 - k)"
    by (rule mult_strict_right_mono) simp
  ultimately show ?thesis unfolding n p q by simp
next
  case False
  with assms(1) have x1: "x < 1" by simp
  from floorLog2_lt_one [OF assms(1) x1] obtain k where k: "floorLog2 x = - int k"
    and lo: "1 \<le> x * 2 ^ k" and hi: "x * 2 ^ k < 2"
    by (metis add.inverse_inverse less_imp_le nat_0_le neg_0_le_iff_le)
  have n: "nat (52 - floorLog2 x) = k + 52" unfolding k by simp
  from lo have "1 * 2 ^ 52 \<le> (x * 2 ^ k) * (2::real) ^ 52" by (rule mult_right_mono) simp
  moreover from hi have "(x * 2 ^ k) * (2::real) ^ 52 < 2 * 2 ^ 52"
    by (rule mult_strict_right_mono) simp
  ultimately show ?thesis unfolding n power_add by (simp add: mult.assoc)
qed

lemma significand_high:
  assumes "0 < x" and "52 < floorLog2 x"
  shows "2 ^ 52 \<le> x / 2 ^ nat (floorLog2 x - 52) \<and> x / 2 ^ nat (floorLog2 x - 52) < 2 ^ 53"
proof -
  have x1: "1 \<le> x"
  proof (rule ccontr)
    assume "\<not> 1 \<le> x"
    with assms(1) floorLog2_lt_one [of x] have "floorLog2 x < 0" by simp
    with assms(2) show False by simp
  qed
  from floorLog2_ge_one [OF x1] obtain k where k: "floorLog2 x = int k"
    and lo: "2 ^ k \<le> x" and hi: "x < 2 ^ Suc k"
    by (metis nat_0_le)
  from assms(2) k have k52: "52 < k" by simp
  then have n: "nat (floorLog2 x - 52) = k - 52" unfolding k by simp
  have p: "(2::real) ^ k = 2 ^ 52 * 2 ^ (k - 52)"
    using k52 by (simp only: power_add [symmetric]) simp
  have q: "(2::real) ^ Suc k = 2 ^ 53 * 2 ^ (k - 52)"
    using k52 by (simp only: power_add [symmetric]) simp
  from lo hi show ?thesis unfolding n p q by (simp add: field_simps)
qed

lemma roundHalfEven_bounds: "\<lfloor>m\<rfloor> \<le> roundHalfEven m \<and> roundHalfEven m \<le> \<lfloor>m\<rfloor> + 1"
  by (simp add: roundHalfEven_def Let_def)

lemma roundHalfEven_pos: "1 \<le> m \<Longrightarrow> 0 < roundHalfEven m"
proof -
  assume "1 \<le> m"
  then have "1 \<le> \<lfloor>m\<rfloor>" by simp
  with roundHalfEven_bounds [of m] show ?thesis by linarith
qed

lemma roundDouble_zero [simp]: "roundDouble 0 = 0"
  by (simp add: roundDouble_def)

lemma roundDouble_minus: "roundDouble (- x) = - roundDouble x"
  by (simp add: roundDouble_def Let_def sgn_minus)

lemma roundDouble_pos:
  assumes "0 < x"
  shows "0 < roundDouble x"
proof (cases "floorLog2 x \<le> 52")
  case True
  from significand_low [OF assms True] have "2 ^ 52 \<le> x * 2 ^ nat (52 - floorLog2 x)" ..
  moreover have "(1::real) \<le> 2 ^ 52" by simp
  ultimately have "1 \<le> x * 2 ^ nat (52 - floorLog2 x)" by (rule order_trans [rotated])
  then have "0 < roundHalfEven (x * 2 ^ nat (52 - floorLog2 x))" by (rule roundHalfEven_pos)
  with assms True show ?thesis by (simp add: roundDouble_def Let_def)
next
  case False
  then have h: "52 < floorLog2 x" by simp
  from significand_high [OF assms h] have "2 ^ 52 \<le> x / 2 ^ nat (floorLog2 x - 52)" ..
  moreover have "(1::real) \<le> 2 ^ 52" by simp
  ultimately have "1 \<le> x / 2 ^ nat (floorLog2 x - 52)" by (rule order_trans [rotated])
  then have "0 < roundHalfEven (x / 2 ^ nat (floorLog2 x - 52))" by (rule roundHalfEven_pos)
  with assms False show ?thesis by (simp add: roundDouble_def Let_def)
qed

lemma roundDouble_sign:
  "0 < roundDouble x \<longleftrightarrow> 0 < x" "roundDouble x < 0 \<longleftrightarrow> x < 0" "roundDouble x = 0 \<longleftrightarrow> x = 0"
proof -
  have neg: "x < 0 \<Longrightarrow> roundDouble x < 0"
    using roundDouble_pos [of "- x"] by (simp add: roundDouble_minus)
  have pos: "0 < x \<Longrightarrow> 0 < roundDouble x" by (rule roundDouble_pos)
  have tri: "x < 0 \<or> x = 0 \<or> 0 < x" by linarith
  show "0 < roundDouble x \<longleftrightarrow> 0 < x" using neg pos tri by fastforce
  show "roundDouble x < 0 \<longleftrightarrow> x < 0" using neg pos tri by fastforce
  show "roundDouble x = 0 \<longleftrightarrow> x = 0" using neg pos tri by fastforce
qed

lemma roundHalfEven_error: "\<bar>of_int (roundHalfEven m) - m\<bar> \<le> 1 / 2"
proof -
  have "of_int \<lfloor>m\<rfloor> \<le> m" and "m < of_int \<lfloor>m\<rfloor> + 1" by linarith+
  then show ?thesis by (simp add: roundHalfEven_def Let_def)
qed

lemma roundDouble_error_pos:
  assumes "0 < x"
  shows "\<bar>roundDouble x - x\<bar> \<le> x / 2 ^ 53"
proof (cases "floorLog2 x \<le> 52")
  case True
  let ?p = "(2::real) ^ nat (52 - floorLog2 x)"
  have p: "0 < ?p" by simp
  from significand_low [OF assms True] have lo: "2 ^ 52 \<le> x * ?p" ..
  have rd: "roundDouble x = of_int (roundHalfEven (x * ?p)) / ?p"
    using assms True by (simp add: roundDouble_def Let_def)
  have "roundDouble x - x = (of_int (roundHalfEven (x * ?p)) - x * ?p) / ?p"
    unfolding rd using p by (simp add: field_simps)
  then have "\<bar>roundDouble x - x\<bar> = \<bar>of_int (roundHalfEven (x * ?p)) - x * ?p\<bar> / ?p"
    using p by (simp add: abs_divide)
  also have "\<dots> \<le> (1 / 2) / ?p"
    by (rule divide_right_mono [OF roundHalfEven_error]) simp
  also have "\<dots> \<le> (x * ?p / 2 ^ 53) / ?p"
    using lo p by (intro divide_right_mono) simp_all
  also have "\<dots> = x / 2 ^ 53" using p by simp
  finally show ?thesis .
next
  case False
  then have h: "52 < floorLog2 x" by simp
  let ?p = "(2::real) ^ nat (floorLog2 x - 52)"
  have p: "0 < ?p" by simp
  from significand_high [OF assms h] have lo: "2 ^ 52 \<le> x / ?p" ..
  have rd: "roundDouble x = of_int (roundHalfEven (x / ?p)) * ?p"
    using assms False by (simp add: roundDouble_def Let_def)
  have "roundDouble x - x = (of_int (roundHalfEven (x / ?p)) - x / ?p) * ?p"
    unfolding rd using p by (simp add: field_simps)
  then have "\<bar>roundDouble x - x\<bar> = \<bar>of_int (roundHalfEven (x / ?p)) - x / ?p\<bar> * ?p"
    using p by (simp add: abs_mult)
  also have "\<dots> \<le> (1 / 2) * ?p"
    by (rule mult_right_mono [OF roundHalfEven_error]) simp
  also have "\<dots> \<le> (x / ?p / 2 ^ 53) * ?p"
  proof (rule mult_right_mono)
    define t where "t = x / ?p"
    from lo have "2 ^ 52 \<le> t" unfolding t_def .
    then have "1 / 2 \<le> t / 2 ^ 53" by simp
    then show "1 / 2 \<le> x / ?p / 2 ^ 53" unfolding t_def .
  qed simp
  also have "\<dots> = x / 2 ^ 53" using p by simp
  finally show ?thesis .
qed

text \<open>Each rounding changes a value by at most one part in \<open>2^53\<close>.\<close>

lemma roundDouble_error: "\<bar>roundDouble x - x\<bar> \<le> \<bar>x\<bar> / 2 ^ 53"
proof -
  consider "x < 0" | "x = 0" | "0 < x" by linarith
  then show ?thesis
  proof cases
    case 1
    then have "\<bar>roundDouble (- x) - (- x)\<bar> \<le> (- x) / 2 ^ 53"
      by (intro roundDouble_error_pos) simp
    with 1 show ?thesis by (simp add: roundDouble_minus abs_minus_commute)
  next
    case 2
    then show ?thesis by simp
  next
    case 3
    with roundDouble_error_pos [OF 3] show ?thesis by simp
  qed
qed



section \<open>Properties of the store\<close>

lemma lowerChar_idem: "lowerChar (lowerChar c) = lowerChar c"
  by (simp add: lowerChar_def)

lemma toLowerCase_idem: "toLowerCase (toLowerCase s) = toLowerCase s"
  by (simp add: toLowerCase_def lowerChar_idem)

lemma sameKey_entryKey:
  "sameKey address chain chat e \<longleftrightarrow> entryKey e = (toLowerCase address, toLowerCase chain, chat)"
  by (auto simp: sameKey_def entryKey_def)

lemma list_ex_sameKey:
  "list_ex (sameKey address chain chat) wl \<longleftrightarrow>
     (toLowerCase address, toLowerCase chain, chat) \<in> set (map entryKey wl)"
  by (force simp: list_ex_iff sameKey_entryKey)

lemma updateFirst_None: "updateFirst p f xs = None \<longleftrightarrow> \<not> list_ex p xs"
  by (induction xs) (auto split: option.splits)

lemma updateFirst_Some_split:
  "updateFirst p f xs = Some ys \<Longrightarrow>
     \<exists>pre x post. xs = pre @ x # post \<and> p x \<and> (\<forall>y\<in>set pre. \<not> p y) \<and> ys = pre @ f x # post"
proof (induction xs arbitrary: ys)
  case Nil
  then show ?case by simp
next
  case (Cons a xs)
  show ?case
  proof (cases "p a")
    case True
    with Cons.prems have "ys = f a # xs" by simp
    with True show ?thesis by (intro exI [of _ "[]"]) auto
  next
    case False
    with Cons.prems obtain zs where zs: "updateFirst p f xs = Some zs" "ys = a # zs"
      by (auto split: option.splits)
    from Cons.IH [OF zs(1)] obtain pre x post where
      "xs = pre @ x # post" "p x" "\<forall>y\<in>set pre. \<not> p y" "zs = pre @ f x # post"
      by blast
    with False zs(2) show ?thesis
      by (intro exI [of _ "a # pre"] exI [of _ x] exI [of _ post]) auto
  qed
qed

lemma updateFirst_map_key:
  "updateFirst p f xs = Some ys \<Longrightarrow> (\<And>x. k (f x) = k x) \<Longrightarrow> map k ys = map k xs"
  by (drule updateFirst_Some_split) auto

lemma updateFirst_length: "updateFirst p f xs = Some ys \<Longrightarrow> length ys = length xs"
  by (drule updateFirst_Some_split) auto

lemma updateFirst_nth_other:
  "updateFirst p f xs = Some ys \<Longrightarrow> i < length xs \<Longrightarrow> \<not> p (xs ! i) \<Longrightarrow> ys ! i = xs ! i"
  by (drule updateFirst_Some_split) (auto simp: nth_append nth_Cons split: nat.splits)

lemma updateFirst_nth_cases:
  "updateFirst p f xs = Some ys \<Longrightarrow> i < length xs \<Longrightarrow> ys ! i = xs ! i \<or> ys ! i = f (xs ! i)"
  by (drule updateFirst_Some_split) (auto simp: nth_append nth_Cons split: nat.splits)

lemma load_save: "loadWatchlist (saveWatchlist wl d) = (if writable d then wl else loadWatchlist d)"
  by (simp add: loadWatchlist_def saveWatchlist_def)

lemma writable_save [simp]: "writable (saveWatchlist wl d) = writable d"
  by (simp add: saveWatchlist_def)

lemma entryKey_lastAlertPrice [simp]: "entryKey (e\<lparr>lastAlertPrice := p\<rparr>) = entryKey e"
  by (simp add: entryKey_def)

lemma entryKey_dropThreshold [simp]: "entryKey (e\<lparr>dropThreshold := p\<rparr>) = entryKey e"
  by (simp add: entryKey_def)

lemma uniqueKeys_add:
  assumes "uniqueKeys (loadWatchlist d)"
  shows "uniqueKeys (loadWatchlist (snd (addToWatchlist address chain nm smb price threshold chat now d)))"
  using assms
  by (auto simp: addToWatchlist_def Let_def load_save uniqueKeys_def list_ex_sameKey
      entryKey_def toLowerCase_idem)

lemma uniqueKeys_remove:
  assumes "uniqueKeys (loadWatchlist d)"
  shows "uniqueKeys (loadWatchlist (snd (removeFromWatchlist address chain chat d)))"
  using assms
  by (auto simp: removeFromWatchlist_def Let_def load_save uniqueKeys_def distinct_map_filter)

lemma uniqueKeys_updateLastAlertPrice:
  assumes "uniqueKeys (loadWatchlist d)"
  shows "uniqueKeys (loadWatchlist (updateLastAlertPrice address chain chat p d))"
  using assms
  by (auto simp: updateLastAlertPrice_def load_save uniqueKeys_def split: option.splits
      dest!: updateFirst_map_key [where k = entryKey])

lemma uniqueKeys_updateThreshold:
  assumes "uniqueKeys (loadWatchlist d)"
  shows "uniqueKeys (loadWatchlist (snd (updateThreshold address chain chat p d)))"
  using assms
  by (auto simp: updateThreshold_def load_save uniqueKeys_def split: option.splits
      dest!: updateFirst_map_key [where k = entryKey])

lemma updateFirst_unique:
  assumes "updateFirst p f xs = Some ys" and "distinct (map k xs)"
    and "\<And>x. p x \<longleftrightarrow> k x = key"
  shows "ys = map (\<lambda>x. if p x then f x else x) xs"
proof -
  from updateFirst_Some_split [OF assms(1)] obtain pre x post where
    split: "xs = pre @ x # post" "p x" "\<forall>y\<in>set pre. \<not> p y" "ys = pre @ f x # post"
    by blast
  from assms(2) split(1) have "k x \<notin> k ` set post" by auto
  with split(2) assms(3) have post: "\<forall>y\<in>set post. \<not> p y" by (metis imageI)
  have "map (\<lambda>x. if p x then f x else x) pre = pre"
    using split(3) by (simp add: map_idI)
  moreover have "map (\<lambda>x. if p x then f x else x) post = post"
    using post by (simp add: map_idI)
  ultimately show ?thesis using split by simp
qed

lemma updateLastAlertPrice_unique:
  assumes "writable d" and "uniqueKeys (loadWatchlist d)"
  shows "loadWatchlist (updateLastAlertPrice address chain chat p d) =
     map (\<lambda>e. if sameKey address chain chat e then e\<lparr>lastAlertPrice := p\<rparr> else e) (loadWatchlist d)"
proof (cases "updateFirst (sameKey address chain chat) (\<lambda>e. e\<lparr>lastAlertPrice := p\<rparr>) (loadWatchlist d)")
  case None
  then have "\<forall>e\<in>set (loadWatchlist d). \<not> sameKey address chain chat e"
    by (simp add: updateFirst_None list_ex_iff)
  then have "map (\<lambda>e. if sameKey address chain chat e then e\<lparr>lastAlertPrice := p\<rparr> else e)
      (loadWatchlist d) = loadWatchlist d"
    by (simp add: map_idI)
  with None show ?thesis by (simp add: updateLastAlertPrice_def)
next
  case (Some ys)
  from updateFirst_unique [OF Some, of entryKey "(toLowerCase address, toLowerCase chain, chat)"]
    assms(2)
  have "ys = map (\<lambda>e. if sameKey address chain chat e then e\<lparr>lastAlertPrice := p\<rparr> else e)
      (loadWatchlist d)"
    by (simp add: uniqueKeys_def sameKey_entryKey)
  with Some assms(1) show ?thesis by (simp add: updateLastAlertPrice_def load_save)
qed

lemma sameKey_self: "sameKey (tokenAddress e) (chainId e) (chatId e) e' \<longleftrightarrow> entryKey e' = entryKey e"
  by (auto simp: sameKey_def entryKey_def)

lemma updateLastAlertPrice_frame:
  "length (loadWatchlist (updateLastAlertPrice address chain chat p d)) = length (loadWatchlist d)"
  "i < length (loadWatchlist d) \<Longrightarrow> \<not> sameKey address chain chat (loadWatchlist d ! i) \<Longrightarrow>
     loadWatchlist (updateLastAlertPrice address chain chat p d) ! i = loadWatchlist d ! i"
  "i < length (loadWatchlist d) \<Longrightarrow>
     loadWatchlist (updateLastAlertPrice address chain chat p d) ! i = loadWatchlist d ! i \<or>
     loadWatchlist (updateLastAlertPrice address chain chat p d) ! i =
       (loadWatchlist d ! i)\<lparr>lastAlertPrice := p\<rparr>"
  "\<not> list_ex (sameKey address chain chat) (loadWatchlist d) \<Longrightarrow>
     updateLastAlertPrice address chain chat p d = d"
proof -
  let ?u = "updateFirst (sameKey address chain chat) (\<lambda>e. e\<lparr>lastAlertPrice := p\<rparr>) (loadWatchlist d)"
  show "length (loadWatchlist (updateLastAlertPrice address chain chat p d)) = length (loadWatchlist d)"
    by (cases ?u) (auto simp: updateLastAlertPrice_def load_save dest: updateFirst_length)
  show "loadWatchlist (updateLastAlertPrice address chain chat p d) ! i = loadWatchlist d ! i"
    if "i < length (loadWatchlist d)" "\<not> sameKey address chain chat (loadWatchlist d ! i)"
    using that
    by (cases ?u) (auto simp: updateLastAlertPrice_def load_save dest: updateFirst_nth_other)
  show "loadWatchlist (updateLastAlertPrice address chain chat p d) ! i = loadWatchlist d ! i \<or>
     loadWatchlist (updateLastAlertPrice address chain chat p d) ! i =
       (loadWatchlist d ! i)\<lparr>lastAlertPrice := p\<rparr>"
    if "i < length (loadWatchlist d)"
    using that updateFirst_nth_cases [of "sameKey address chain chat"
        "\<lambda>e. e\<lparr>lastAlertPrice := p\<rparr>" "loadWatchlist d" _ i]
    by (cases ?u) (auto simp: updateLastAlertPrice_def load_save)
  show "updateLastAlertPrice address chain chat p d = d"
    if "\<not> list_ex (sameKey address chain chat) (loadWatchlist d)"
    using that updateFirst_None [of "sameKey address chain chat"
        "\<lambda>e. e\<lparr>lastAlertPrice := p\<rparr>" "loadWatchlist d"]
    by (simp add: updateLastAlertPrice_def)
qed

section \<open>Properties of the batched fetch\<close>

lemma batchesOf_Nil [simp]: "batchesOf n [] = []"
  by (simp add: batchesOf.simps)

lemma batchesOf_concat: "0 < n \<Longrightarrow> concat (batchesOf n xs) = xs"
proof (induction n xs rule: batchesOf.induct)
  case (1 n xs)
  then show ?case by (cases "xs = []") (simp_all add: batchesOf.simps [of n xs])
qed

lemma batchesOf_sizes: "b \<in> set (batchesOf n xs) \<Longrightarrow> 0 < length b \<and> length b \<le> n"
proof (induction n xs rule: batchesOf.induct)
  case (1 n xs)
  then show ?case
    by (cases "n = 0 \<or> xs = []") (auto simp: batchesOf.simps [of n xs])
qed

lemma batchesOf_empty_iff: "0 < n \<Longrightarrow> batchesOf n xs = [] \<longleftrightarrow> xs = []"
  by (simp add: batchesOf.simps [of n xs])

lemma batchSize_pos: "0 < batchSize"
  by (simp add: batchSize_def)

lemma pacedRequests_Cons:
  "pacedRequests chain (b # bs) =
     Get chain b # (if bs = [] then [] else Sleep 250 # pacedRequests chain bs)"
  by (cases bs) simp_all

lemma batchLoop_batches:
  "batchLoop api chain tokenAddresses i acc =
     (foldl (\<lambda>results batch. batchResults api chain batch results) (fst acc)
        (batchesOf batchSize (drop i tokenAddresses)),
      snd acc @ pacedRequests chain (batchesOf batchSize (drop i tokenAddresses)))"
proof (induction api chain tokenAddresses i acc rule: batchLoop.induct)
  case (1 api chain tokenAddresses i acc)
  show ?case
  proof (cases "i < length tokenAddresses")
    case False
    then show ?thesis by (simp add: batchLoop.simps [of api chain tokenAddresses i acc])
  next
    case True
    let ?batch = "take batchSize (drop i tokenAddresses)"
    let ?rest = "drop (i + batchSize) tokenAddresses"
    have unfold: "batchesOf batchSize (drop i tokenAddresses) = ?batch # batchesOf batchSize ?rest"
      using True batchSize_pos
      by (subst batchesOf.simps) (simp add: add.commute)
    have pause: "(i + batchSize < length tokenAddresses) \<longleftrightarrow> batchesOf batchSize ?rest \<noteq> []"
      by (auto simp: batchesOf_empty_iff batchSize_pos)
    have step: "batchLoop api chain tokenAddresses i acc =
        batchLoop api chain tokenAddresses (i + batchSize)
          (batchResults api chain ?batch (fst acc),
           snd acc @ [Get chain ?batch] @
             (if i + batchSize < length tokenAddresses then [Sleep 250] else []))"
      using True by (simp add: batchLoop.simps [of api chain tokenAddresses i acc] Let_def)
    show ?thesis
      unfolding step
      by (subst "1.IH" [OF True refl refl refl])
         (simp add: unfold pacedRequests_Cons pause)
  qed
qed

lemma getMultipleTokensData_batches:
  "getMultipleTokensData api chain tokenAddresses =
     (foldl (\<lambda>results batch. batchResults api chain batch results) Map.empty
        (batchesOf batchSize tokenAddresses),
      pacedRequests chain (batchesOf batchSize tokenAddresses))"
  by (simp add: getMultipleTokensData_def batchLoop_batches)

lemma pushTo_fst:
  "map fst (pushTo k v m) = (if k \<in> fst ` set m then map fst m else map fst m @ [k])"
proof (induction m)
  case Nil
  show ?case by simp
next
  case (Cons g m)
  obtain k' vs where g: "g = (k', vs)" by (cases g)
  show ?case
  proof (cases "k' = k")
    case True
    with g show ?thesis by simp
  next
    case False
    with g Cons.IH show ?thesis by auto
  qed
qed

lemma pushTo_distinct: "distinct (map fst m) \<Longrightarrow> distinct (map fst (pushTo k v m))"
  by (simp add: pushTo_fst)

lemma pushTo_map_of:
  "map_of (pushTo k v m) k' = (if k' = k then Some (groupOf m k @ [v]) else map_of m k')"
  by (induction m) (auto simp: groupOf_def)

lemma pushTo_groupOf:
  "groupOf (pushTo k v m) k' = (if k' = k then groupOf m k @ [v] else groupOf m k')"
  by (simp add: groupOf_def pushTo_map_of)

lemma pushTo_nonempty: "\<forall>g\<in>set m. snd g \<noteq> [] \<Longrightarrow> \<forall>g\<in>set (pushTo k v m). snd g \<noteq> []"
proof (induction m)
  case Nil
  show ?case by simp
next
  case (Cons g m)
  obtain k' vs where g: "g = (k', vs)" by (cases g)
  show ?case
  proof (cases "k' = k")
    case True
    with g Cons.prems show ?thesis by simp
  next
    case False
    with g Cons show ?thesis by simp
  qed
qed

lemma groups_fold:
  fixes key :: "'v \<Rightarrow> 'k option"
  defines "step \<equiv> (\<lambda>m p. case key p of None \<Rightarrow> m | Some addr \<Rightarrow> pushTo addr p m)"
  assumes "distinct (map fst m)" and "\<forall>g\<in>set m. snd g \<noteq> []"
  shows "distinct (map fst (foldl step m ps)) \<and> (\<forall>g\<in>set (foldl step m ps). snd g \<noteq> []) \<and>
         groupOf (foldl step m ps) k = groupOf m k @ filter (\<lambda>p. key p = Some k) ps"
  using assms(2,3)
proof (induction ps arbitrary: m)
  case Nil
  then show ?case by simp
next
  case (Cons p ps)
  show ?case
  proof (cases "key p")
    case None
    with Cons show ?thesis by (simp add: step_def)
  next
    case (Some addr)
    have d: "distinct (map fst (pushTo addr p m))" using Cons.prems(1) by (rule pushTo_distinct)
    have n: "\<forall>g\<in>set (pushTo addr p m). snd g \<noteq> []" using Cons.prems(2) by (rule pushTo_nonempty)
    from Cons.IH [OF d n] Some show ?thesis
      by (auto simp: step_def pushTo_groupOf)
  qed
qed

lemma map_of_nonempty:
  assumes "\<forall>g\<in>set m. snd g \<noteq> []"
  shows "map_of m k = (if groupOf m k = [] then None else Some (groupOf m k))"
proof (cases "map_of m k")
  case None
  then show ?thesis by (simp add: groupOf_def)
next
  case (Some vs)
  then have "(k, vs) \<in> set m" by (rule map_of_SomeD)
  with assms have "vs \<noteq> []" by force
  with Some show ?thesis by (simp add: groupOf_def)
qed

lemma pairsByToken_distinct: "distinct (map fst (pairsByToken pairs))"
  using groups_fold [of "[]" pairKey pairs] by (simp add: pairsByToken_def)

lemma pairsByToken_map_of:
  "map_of (pairsByToken pairs) k =
     (if filter (\<lambda>p. pairKey p = Some k) pairs = [] then None
      else Some (filter (\<lambda>p. pairKey p = Some k) pairs))"
proof -
  have "(\<forall>g\<in>set (pairsByToken pairs). snd g \<noteq> []) \<and>
      groupOf (pairsByToken pairs) k = filter (\<lambda>p. pairKey p = Some k) pairs"
    using groups_fold [of "[]" pairKey pairs k] by (simp add: pairsByToken_def groupOf_def)
  then show ?thesis using map_of_nonempty [of "pairsByToken pairs" k] by simp
qed

lemma foldl_setBest:
  "distinct (map fst gs) \<Longrightarrow>
   foldl (setBest chain) results gs k =
     (case map_of gs k of
        None \<Rightarrow> results k
      | Some ps \<Rightarrow> (case bestPairOf ps of
                     None \<Rightarrow> results k
                   | Some bestPair \<Rightarrow> Some (toTokenData chain k bestPair)))"
proof (induction gs arbitrary: results)
  case Nil
  show ?case by simp
next
  case (Cons g gs)
  obtain k' ps' where g: "g = (k', ps')" by (cases g)
  from Cons.prems g have d: "distinct (map fst gs)" and notin: "k' \<notin> fst ` set gs" by auto
  from notin have none: "map_of gs k' = None" by (simp add: map_of_eq_None_iff)
  show ?case
    using Cons.IH [OF d, of "setBest chain results g"] g none
    by (auto simp: setBest_def split: option.splits)
qed

lemma bestPairOf_None [simp]: "bestPairOf ps = None \<longleftrightarrow> ps = []"
  by (cases ps) simp_all

lemma foldl_pickBest_mem: "foldl pickBest p ps \<in> insert p (set ps)"
  by (induction ps arbitrary: p) (auto simp: pickBest_def)

lemma pickBest_same [simp]: "pickBest p p = p"
  by (simp add: pickBest_def)

lemma bestPairOf_mem: "bestPairOf ps = Some bestPair \<Longrightarrow> bestPair \<in> set ps"
proof (cases ps)
  case Nil
  then show "bestPairOf ps = Some bestPair \<Longrightarrow> bestPair \<in> set ps" by simp
next
  case (Cons p ps')
  assume "bestPairOf ps = Some bestPair"
  with Cons have "bestPair = foldl pickBest p ps'" by simp
  with foldl_pickBest_mem [of p ps'] Cons show "bestPair \<in> set ps" by simp
qed

lemma batchResults_lookup:
  "batchResults api chain batch results k =
     (case api chain batch of
        None \<Rightarrow> results k
      | Some pairs \<Rightarrow>
          (case bestPairOf (filter (\<lambda>p. pairKey p = Some k) pairs) of
             None \<Rightarrow> results k
           | Some bestPair \<Rightarrow> Some (toTokenData chain k bestPair)))"
  by (auto simp: batchResults_def foldl_setBest pairsByToken_distinct pairsByToken_map_of
      split: option.splits)

lemma pairKey_lower: "pairKey p = Some k \<Longrightarrow> toLowerCase k = k"
  by (auto simp: pairKey_def toLowerCase_idem split: option.splits if_splits)

lemma batchResults_Some:
  assumes "batchResults api chain batch results k = Some td"
  shows "results k = Some td \<or>
     (\<exists>pairs p. api chain batch = Some pairs \<and> p \<in> set pairs \<and> pairKey p = Some k \<and>
        td = toTokenData chain k p)"
proof (cases "api chain batch")
  case None
  with assms show ?thesis by (simp add: batchResults_lookup)
next
  case (Some pairs)
  show ?thesis
  proof (cases "bestPairOf (filter (\<lambda>p. pairKey p = Some k) pairs)")
    case None
    with assms Some show ?thesis by (simp add: batchResults_lookup)
  next
    case best: (Some bestPair)
    from bestPairOf_mem [OF best] have "bestPair \<in> set pairs" "pairKey bestPair = Some k" by auto
    moreover from assms Some best have "td = toTokenData chain k bestPair"
      by (simp add: batchResults_lookup)
    ultimately show ?thesis using Some by blast
  qed
qed

lemma batchResults_None:
  "batchResults api chain batch results k = None \<longleftrightarrow>
     results k = None \<and>
     (\<forall>pairs. api chain batch = Some pairs \<longrightarrow> (\<forall>p\<in>set pairs. pairKey p \<noteq> Some k))"
  by (auto simp: batchResults_lookup filter_empty_conv split: option.splits)

lemma results_Some:
  assumes "foldl (\<lambda>results batch. batchResults api chain batch results) results0 batches k = Some td"
  shows "results0 k = Some td \<or>
     (\<exists>batch\<in>set batches. \<exists>pairs p. api chain batch = Some pairs \<and> p \<in> set pairs \<and>
        pairKey p = Some k \<and> td = toTokenData chain k p)"
  using assms
proof (induction batches arbitrary: results0)
  case Nil
  then show ?case by simp
next
  case (Cons batch batches)
  from Cons.IH [of "batchResults api chain batch results0"] Cons.prems
  consider "batchResults api chain batch results0 k = Some td"
    | "\<exists>b\<in>set batches. \<exists>pairs p. api chain b = Some pairs \<and> p \<in> set pairs \<and>
        pairKey p = Some k \<and> td = toTokenData chain k p"
    by auto
  then show ?case
  proof cases
    case 1
    from batchResults_Some [OF 1] show ?thesis by auto
  next
    case 2
    then show ?thesis by auto
  qed
qed

lemma results_None:
  "foldl (\<lambda>results batch. batchResults api chain batch results) results0 batches k = None \<longleftrightarrow>
     results0 k = None \<and>
     (\<forall>batch\<in>set batches. \<forall>pairs. api chain batch = Some pairs \<longrightarrow>
        (\<forall>p\<in>set pairs. pairKey p \<noteq> Some k))"
proof (induction batches arbitrary: results0)
  case Nil
  show ?case by simp
next
  case (Cons batch batches)
  show ?case
    unfolding foldl_Cons Cons.IH batchResults_None by auto
qed

section \<open>Properties of the alert evaluator\<close>

lemma sendPriceAlert_total:
  "\<exists>w'. sendPriceAlert tgBot entry tokenData percentChange w = Inr w' \<and> store w' = store w
      \<and> network w' = network w"
  by (auto simp: sendPriceAlert_def Let_def split: option.splits sum.splits)


lemma checkEntry_cases:
  obtains
    (nodata) "tokenDataMap (toLowerCase (tokenAddress entry)) = None"
      "checkEntry tgBot tokenDataMap entry w =
         Inr (w\<lparr>console := console w @ [LogNoData (symbol entry) (chainId entry)]\<rparr>)"
  | (skip) tokenData where "tokenDataMap (toLowerCase (tokenAddress entry)) = Some tokenData"
      "lastAlertPrice entry \<le> 0 \<or> priceUsd tokenData \<le> 0"
      "checkEntry tgBot tokenDataMap entry w = Inr w"
  | (quiet) tokenData where "tokenDataMap (toLowerCase (tokenAddress entry)) = Some tokenData"
      "0 < lastAlertPrice entry" "0 < priceUsd tokenData"
      "\<bar>percentChangeOf (priceUsd tokenData) (lastAlertPrice entry)\<bar> < dropThreshold entry"
      "checkEntry tgBot tokenDataMap entry w = Inr w"
  | (fire) tokenData w1 where "tokenDataMap (toLowerCase (tokenAddress entry)) = Some tokenData"
      "0 < lastAlertPrice entry" "0 < priceUsd tokenData"
      "dropThreshold entry \<le> \<bar>percentChangeOf (priceUsd tokenData) (lastAlertPrice entry)\<bar>"
      "sendPriceAlert tgBot entry tokenData
         (percentChangeOf (priceUsd tokenData) (lastAlertPrice entry))
         (w\<lparr>console := console w @
            [LogDetected (symbol entry)
               (percentChangeOf (priceUsd tokenData) (lastAlertPrice entry))]\<rparr>) = Inr w1"
      "checkEntry tgBot tokenDataMap entry w =
         Inr (w1\<lparr>store := updateLastAlertPrice (tokenAddress entry) (chainId entry)
                 (chatId entry) (priceUsd tokenData) (store w)\<rparr>)"
proof (cases "tokenDataMap (toLowerCase (tokenAddress entry))")
  case None
  then show ?thesis by (intro nodata) (simp_all add: checkEntry_def)
next
  case (Some tokenData)
  let ?pc = "percentChangeOf (priceUsd tokenData) (lastAlertPrice entry)"
  show ?thesis
  proof (cases "lastAlertPrice entry \<le> 0 \<or> priceUsd tokenData \<le> 0")
    case True
    with Some show ?thesis by (intro skip [of tokenData]) (auto simp: checkEntry_def)
  next
    case guard: False
    show ?thesis
    proof (cases "dropThreshold entry \<le> \<bar>?pc\<bar>")
      case False
      with Some guard show ?thesis
        by (intro quiet [of tokenData]) (auto simp: checkEntry_def Let_def)
    next
      case True
      obtain w1 where w1:
        "sendPriceAlert tgBot entry tokenData ?pc
           (w\<lparr>console := console w @ [LogDetected (symbol entry) ?pc]\<rparr>) = Inr w1"
        "store w1 = store w"
        using sendPriceAlert_total [of tgBot entry tokenData ?pc
            "w\<lparr>console := console w @ [LogDetected (symbol entry) ?pc]\<rparr>"]
        by auto
      with Some guard True show ?thesis
        by (intro fire [of tokenData w1]) (auto simp: checkEntry_def Let_def)
    qed
  qed
qed

lemma checkEntry_total: "\<exists>w'. checkEntry tgBot tokenDataMap entry w = Inr w'"
  by (cases rule: checkEntry_cases [of tokenDataMap entry tgBot w]) auto

lemma checkEntry_store:
  assumes "checkEntry tgBot tokenDataMap entry w = Inr w'"
  shows "store w' = store w \<or>
     (\<exists>p. 0 < p \<and> store w' =
        updateLastAlertPrice (tokenAddress entry) (chainId entry) (chatId entry) p (store w))"
  using assms
  by (cases rule: checkEntry_cases [of tokenDataMap entry tgBot w]) auto

lemma entryLoop_total: "\<exists>w'. entryLoop tgBot tokenDataMap entries w = Inr w'"
proof (induction entries arbitrary: w)
  case Nil
  show ?case by simp
next
  case (Cons entry entries)
  obtain w1 where "checkEntry tgBot tokenDataMap entry w = Inr w1"
    using checkEntry_total by blast
  with Cons.IH [of w1] show ?case by simp
qed

lemma entryLoop_store_invariant:
  assumes step: "\<And>a c s p d. P d \<Longrightarrow> 0 < p \<Longrightarrow> P (updateLastAlertPrice a c s p d)"
  shows "P (store w) \<Longrightarrow> entryLoop tgBot tokenDataMap entries w = Inr w' \<Longrightarrow> P (store w')"
proof (induction entries arbitrary: w)
  case Nil
  then show ?case by simp
next
  case (Cons entry entries)
  obtain w1 where w1: "checkEntry tgBot tokenDataMap entry w = Inr w1"
    using checkEntry_total by blast
  with Cons.prems(1) step have "P (store w1)"
    using checkEntry_store [OF w1] by auto
  with Cons.IH [of w1] Cons.prems(2) w1 show ?case by simp
qed

lemma chainLoop_total: "\<exists>w'. chainLoop api tgBot groups w = Inr w'"
proof (induction groups arbitrary: w)
  case Nil
  show ?case by simp
next
  case (Cons g groups)
  obtain chain entries where g: "g = (chain, entries)" by (cases g)
  let ?f = "getMultipleTokensData api chain (map tokenAddress entries)"
  obtain w1 where "entryLoop tgBot (fst ?f) entries (w\<lparr>network := network w @ snd ?f\<rparr>) = Inr w1"
    using entryLoop_total by blast
  with Cons.IH [of w1] g show ?case by (simp add: Let_def)
qed

lemma chainLoop_store_invariant:
  assumes step: "\<And>a c s p d. P d \<Longrightarrow> 0 < p \<Longrightarrow> P (updateLastAlertPrice a c s p d)"
  shows "P (store w) \<Longrightarrow> chainLoop api tgBot groups w = Inr w' \<Longrightarrow> P (store w')"
proof (induction groups arbitrary: w)
  case Nil
  then show ?case by simp
next
  case (Cons g groups)
  obtain chain entries where g: "g = (chain, entries)" by (cases g)
  let ?f = "getMultipleTokensData api chain (map tokenAddress entries)"
  let ?w = "w\<lparr>network := network w @ snd ?f\<rparr>"
  obtain w1 where w1: "entryLoop tgBot (fst ?f) entries ?w = Inr w1"
    using entryLoop_total by blast
  from Cons.prems(1) have "P (store ?w)" by simp
  then have "P (store w1)" using entryLoop_store_invariant [where P = P, OF step _ w1] by blast
  with Cons.IH [of w1] Cons.prems(2) w1 g show ?case by (simp add: Let_def)
qed

lemma checkPrices_total: "\<exists>w'. checkPrices api tgBot w = Inr w'"
  using chainLoop_total by (auto simp: checkPrices_def Let_def)

lemma checkPrices_store_invariant:
  assumes step: "\<And>a c s p d. P d \<Longrightarrow> 0 < p \<Longrightarrow> P (updateLastAlertPrice a c s p d)"
    and "P (store w)" and "checkPrices api tgBot w = Inr w'"
  shows "P (store w')"
proof (cases "length (getAllWatchlist (store w)) = 0")
  case True
  with assms(2,3) show ?thesis by (simp add: checkPrices_def)
next
  case False
  let ?w = "w\<lparr>console := console w @ [LogChecking (length (getAllWatchlist (store w)))]\<rparr>"
  from False assms(3) have "chainLoop api tgBot (entriesByChain (getAllWatchlist (store w))) ?w = Inr w'"
    by (simp add: checkPrices_def Let_def)
  moreover from assms(2) have "P (store ?w)" by simp
  ultimately show ?thesis using chainLoop_store_invariant [where P = P, OF step] by blast
qed



lemma firedAlerts_append: "firedAlerts (xs @ ys) = firedAlerts xs @ firedAlerts ys"
  by (induction xs rule: firedAlerts.induct) simp_all

lemma sendPriceAlert_firedAlerts:
  "sendPriceAlert tgBot entry tokenData percentChange w = Inr w' \<Longrightarrow>
     firedAlerts (console w') = firedAlerts (console w)"
  by (auto simp: sendPriceAlert_def Let_def firedAlerts_append split: option.splits sum.splits)


lemma sampleData_simps [simp]: "priceUsd (sampleData p) = p"
  by (simp add: sampleData_def toTokenData_def orNum_def samplePair_def)

lemma toLower_abc: "toLowerCase ''abc'' = ''abc''"
  by (simp add: toLowerCase_def lowerChar_def)

lemma updateLastAlertPrice_other_chat:
  assumes "i < length (loadWatchlist d)" and "chatId (loadWatchlist d ! i) \<noteq> chat"
  shows "loadWatchlist (updateLastAlertPrice address chain chat p d) ! i = loadWatchlist d ! i"
  using assms by (intro updateLastAlertPrice_frame(2)) (simp_all add: sameKey_def)

lemma uniqueKeys_checkPrices:
  assumes "uniqueKeys (loadWatchlist (store w))" and "checkPrices api tgBot w = Inr w'"
  shows "uniqueKeys (loadWatchlist (store w'))"
  using checkPrices_store_invariant [where P = "\<lambda>d. uniqueKeys (loadWatchlist d)", OF _ assms]
  by (simp add: uniqueKeys_updateLastAlertPrice)

lemma pushTo_values: "set (concat (map snd (pushTo k v m))) = insert v (set (concat (map snd m)))"
proof (induction m)
  case Nil
  show ?case by simp
next
  case (Cons g m)
  obtain k' vs where g: "g = (k', vs)" by (cases g)
  show ?case
  proof (cases "k' = k")
    case True
    with g show ?thesis by auto
  next
    case False
    with g Cons.IH show ?thesis by auto
  qed
qed

lemma foldl_pushTo_values:
  "set (concat (map snd (foldl (\<lambda>m x. pushTo (f x) x m) m0 xs))) =
     set xs \<union> set (concat (map snd m0))"
proof (induction xs arbitrary: m0)
  case Nil
  show ?case by simp
next
  case (Cons x xs)
  have "set (concat (map snd (foldl (\<lambda>m x. pushTo (f x) x m) (pushTo (f x) x m0) xs))) =
      set xs \<union> set (concat (map snd (pushTo (f x) x m0)))"
    by (rule Cons.IH)
  then show ?case by (simp add: pushTo_values del: set_concat)
qed

lemma entriesByChain_values: "set (concat (map snd (entriesByChain allEntries))) = set allEntries"
  by (simp add: entriesByChain_def foldl_pushTo_values del: set_concat)

lemma checkEntry_quiet_reference:
  assumes "lastAlertPrice entry \<le> 0"
  shows "\<exists>w'. checkEntry tgBot tokenDataMap entry w = Inr w' \<and> store w' = store w \<and>
           delivered w' = delivered w \<and> firedAlerts (console w') = firedAlerts (console w)"
  using assms
  by (cases rule: checkEntry_cases [of tokenDataMap entry tgBot w])
     (auto simp: firedAlerts_append)

lemma entryLoop_quiet_reference:
  assumes "\<forall>e\<in>set entries. lastAlertPrice e \<le> 0"
  shows "\<exists>w'. entryLoop tgBot tokenDataMap entries w = Inr w' \<and> store w' = store w \<and>
           delivered w' = delivered w \<and> firedAlerts (console w') = firedAlerts (console w)"
  using assms
proof (induction entries arbitrary: w)
  case Nil
  show ?case by simp
next
  case (Cons e entries)
  then obtain w1 where w1: "checkEntry tgBot tokenDataMap e w = Inr w1" "store w1 = store w"
    "delivered w1 = delivered w" "firedAlerts (console w1) = firedAlerts (console w)"
    using checkEntry_quiet_reference [of e tgBot tokenDataMap w] by auto
  from Cons obtain w2 where "entryLoop tgBot tokenDataMap entries w1 = Inr w2" "store w2 = store w1"
    "delivered w2 = delivered w1" "firedAlerts (console w2) = firedAlerts (console w1)"
    by fastforce
  with w1 show ?case by simp
qed

lemma chainLoop_quiet_reference:
  assumes "\<forall>e\<in>set (concat (map snd groups)). lastAlertPrice e \<le> 0"
  shows "\<exists>w'. chainLoop api tgBot groups w = Inr w' \<and> store w' = store w \<and>
           delivered w' = delivered w \<and> firedAlerts (console w') = firedAlerts (console w)"
  using assms
proof (induction groups arbitrary: w)
  case Nil
  show ?case by simp
next
  case (Cons g groups)
  obtain chain entries where g: "g = (chain, entries)" by (cases g)
  let ?f = "getMultipleTokensData api chain (map tokenAddress entries)"
  let ?w = "w\<lparr>network := network w @ snd ?f\<rparr>"
  from Cons.prems g have "\<forall>e\<in>set entries. lastAlertPrice e \<le> 0" by auto
  from entryLoop_quiet_reference [OF this, of tgBot "fst ?f" ?w]
  obtain w1 where w1: "entryLoop tgBot (fst ?f) entries ?w = Inr w1" "store w1 = store w"
    "delivered w1 = delivered w" "firedAlerts (console w1) = firedAlerts (console w)"
    by auto
  from Cons.prems have "\<forall>e\<in>set (concat (map snd groups)). lastAlertPrice e \<le> 0" by auto
  from Cons.IH [OF this, of w1]
  obtain w2 where "chainLoop api tgBot groups w1 = Inr w2" "store w2 = store w1"
    "delivered w2 = delivered w1" "firedAlerts (console w2) = firedAlerts (console w1)"
    by auto
  with w1 g show ?case by (simp add: Let_def)
qed

lemma checkPrices_quiet_reference:
  assumes "\<forall>e\<in>set (loadWatchlist (store w)). lastAlertPrice e \<le> 0"
  shows "\<exists>w'. checkPrices api tgBot w = Inr w' \<and> store w' = store w \<and>
           delivered w' = delivered w \<and> firedAlerts (console w') = firedAlerts (console w)"
proof (cases "length (getAllWatchlist (store w)) = 0")
  case True
  then show ?thesis by (simp add: checkPrices_def)
next
  case False
  let ?w = "w\<lparr>console := console w @ [LogChecking (length (getAllWatchlist (store w)))]\<rparr>"
  from assms have "\<forall>e\<in>set (concat (map snd (entriesByChain (getAllWatchlist (store w))))).
      lastAlertPrice e \<le> 0"
    by (simp add: entriesByChain_values getAllWatchlist_def del: set_concat)
  from chainLoop_quiet_reference [OF this, of api tgBot ?w] False
  show ?thesis by (auto simp: checkPrices_def Let_def firedAlerts_append)
qed


lemma sameKey_lastAlertPrice [simp]:
  "sameKey address chain chat (e\<lparr>lastAlertPrice := p\<rparr>) = sameKey address chain chat e"
  by (simp add: sameKey_def)

lemma updateLastAlertPrice_reference:
  assumes "writable d" and "uniqueKeys (loadWatchlist d)"
  shows "\<forall>e\<in>set (loadWatchlist (updateLastAlertPrice address chain chat p d)).
           sameKey address chain chat e \<longrightarrow> lastAlertPrice e = p"
    and "map entryKey (loadWatchlist (updateLastAlertPrice address chain chat p d)) =
           map entryKey (loadWatchlist d)"
  using updateLastAlertPrice_unique [OF assms, of address chain chat p]
  by (auto simp: comp_def)

lemma checkEntry_failed_send:
  assumes "tokenDataMap (toLowerCase (tokenAddress entry)) = Some tokenData"
    and "0 < lastAlertPrice entry" and "0 < priceUsd tokenData"
    and "dropThreshold entry \<le> \<bar>percentChangeOf (priceUsd tokenData) (lastAlertPrice entry)\<bar>"
    and "sendMessage \<lparr>alertChat = chatId entry, alertEntry = entry, alertData = tokenData,
           alertChange = percentChangeOf (priceUsd tokenData) (lastAlertPrice entry)\<rparr> = Inl err"
  shows "checkEntry (Some sendMessage) tokenDataMap entry w =
     Inr (w\<lparr>console := console w @
              [LogDetected (symbol entry) (percentChangeOf (priceUsd tokenData) (lastAlertPrice entry)),
               ErrSendingAlert (chatId entry)],
            store := updateLastAlertPrice (tokenAddress entry) (chainId entry) (chatId entry)
              (priceUsd tokenData) (store w)\<rparr>)"
  using assms by (simp add: checkEntry_def sendPriceAlert_def Let_def not_le [symmetric])

lemma sampleEntry_fields:
  "tokenAddress sampleEntry = ''abc''" "chainId sampleEntry = ''solana''"
  "chatId sampleEntry = ''42''" "symbol sampleEntry = ''TOK''"
  "dropThreshold sampleEntry = 5" "lastAlertPrice sampleEntry = 1" "initialPrice sampleEntry = 1"
  by (simp_all add: sampleEntry_def)

lemma sampleWorld_fields:
  "store sampleWorld = sampleDisk" "delivered sampleWorld = []" "console sampleWorld = []"
  "network sampleWorld = []" "writable sampleDisk" "loadWatchlist sampleDisk = [sampleEntry]"
  by (simp_all add: sampleWorld_def sampleDisk_def loadWatchlist_def)

lemma writable_updateLastAlertPrice [simp]:
  "writable (updateLastAlertPrice address chain chat p d) = writable d"
  by (simp add: updateLastAlertPrice_def split: option.splits)

lemma entriesByChain_single: "entriesByChain [e] = [(chainId e, [e])]"
  by (simp add: entriesByChain_def)

lemma sum_case_id: "(case x of Inl e \<Rightarrow> Inl e | Inr v \<Rightarrow> Inr v) = x"
  by (cases x) simp_all

lemma checkPrices_single:
  assumes "loadWatchlist (store w) = [e]"
  shows "checkPrices api tgBot w =
     checkEntry tgBot (fst (getMultipleTokensData api (chainId e) [tokenAddress e])) e
       (w\<lparr>console := console w @ [LogChecking 1],
          network := network w @ snd (getMultipleTokensData api (chainId e) [tokenAddress e])\<rparr>)"
  using assms
  by (simp add: checkPrices_def getAllWatchlist_def entriesByChain_single Let_def sum_case_id
      split: sum.splits)

lemma sweep_single:
  assumes load: "loadWatchlist (store w) = [e]" and wr: "writable (store w)"
    and data: "fst (getMultipleTokensData api (chainId e) [tokenAddress e])
                 (toLowerCase (tokenAddress e)) = Some td"
    and pos: "0 < lastAlertPrice e" "0 < priceUsd td"
  shows "\<exists>w'. checkPrices api tgBot w = Inr w' \<and> writable (store w') \<and>
     (if dropThreshold e \<le> \<bar>percentChangeOf (priceUsd td) (lastAlertPrice e)\<bar>
      then loadWatchlist (store w') = [e\<lparr>lastAlertPrice := priceUsd td\<rparr>] \<and>
           firedAlerts (console w') =
             firedAlerts (console w) @ [percentChangeOf (priceUsd td) (lastAlertPrice e)]
      else loadWatchlist (store w') = [e] \<and>
           firedAlerts (console w') = firedAlerts (console w))"
proof -
  let ?f = "getMultipleTokensData api (chainId e) [tokenAddress e]"
  let ?w = "w\<lparr>console := console w @ [LogChecking 1], network := network w @ snd ?f\<rparr>"
  let ?pc = "percentChangeOf (priceUsd td) (lastAlertPrice e)"
  have eq: "checkPrices api tgBot w = checkEntry tgBot (fst ?f) e ?w"
    by (rule checkPrices_single [OF load])
  have fa: "firedAlerts (console ?w) = firedAlerts (console w)"
    by (simp add: firedAlerts_append)
  show ?thesis
  proof (cases rule: checkEntry_cases [of "fst ?f" e tgBot ?w])
    case nodata
    with data show ?thesis by simp
  next
    case (skip t)
    with data pos show ?thesis by simp
  next
    case (quiet t)
    with data have "t = td" by simp
    with quiet load wr fa show ?thesis unfolding eq by simp
  next
    case (fire t w1)
    with data have t: "t = td" by simp
    let ?w' = "w1\<lparr>store := updateLastAlertPrice (tokenAddress e) (chainId e) (chatId e)
        (priceUsd td) (store ?w)\<rparr>"
    have uk: "uniqueKeys (loadWatchlist (store w))" by (simp add: load uniqueKeys_def)
    have "loadWatchlist (store ?w') = [e\<lparr>lastAlertPrice := priceUsd td\<rparr>]"
      using updateLastAlertPrice_unique [OF wr uk, of "tokenAddress e" "chainId e" "chatId e" "priceUsd td"]
      by (simp add: load sameKey_self)
    moreover have "firedAlerts (console ?w') = firedAlerts (console w) @ [?pc]"
      using sendPriceAlert_firedAlerts [OF fire(5) [unfolded t]] by (simp add: firedAlerts_append)
    moreover have "writable (store ?w')" using wr by simp
    ultimately show ?thesis using fire(4,6) unfolding eq t by simp
  qed
qed

lemma checkEntry_fire_store:
  assumes data: "tokenDataMap (toLowerCase (tokenAddress entry)) = Some tokenData"
    and pos: "0 < lastAlertPrice entry" "0 < priceUsd tokenData"
    and thr: "dropThreshold entry \<le> \<bar>percentChangeOf (priceUsd tokenData) (lastAlertPrice entry)\<bar>"
    and wr: "writable (store w)" and uk: "uniqueKeys (loadWatchlist (store w))"
    and mem: "entry \<in> set (loadWatchlist (store w))"
  shows "\<exists>w'. checkEntry tgBot tokenDataMap entry w = Inr w' \<and>
           loadWatchlist (store w') =
             map (\<lambda>e. if entryKey e = entryKey entry
                      then e\<lparr>lastAlertPrice := priceUsd tokenData\<rparr> else e)
               (loadWatchlist (store w)) \<and>
           entry\<lparr>lastAlertPrice := priceUsd tokenData\<rparr> \<in> set (loadWatchlist (store w'))"
proof (cases rule: checkEntry_cases [of tokenDataMap entry tgBot w])
  case nodata
  with data show ?thesis by simp
next
  case (skip t)
  with data pos show ?thesis by simp
next
  case (quiet t)
  with data thr show ?thesis by simp
next
  case (fire t w1)
  with data have t: "t = tokenData" by simp
  let ?d = "updateLastAlertPrice (tokenAddress entry) (chainId entry) (chatId entry)
      (priceUsd tokenData) (store w)"
  have eq: "loadWatchlist ?d =
      map (\<lambda>e. if entryKey e = entryKey entry then e\<lparr>lastAlertPrice := priceUsd tokenData\<rparr> else e)
        (loadWatchlist (store w))"
    using updateLastAlertPrice_unique [OF wr uk] by (simp add: sameKey_self)
  have "entry\<lparr>lastAlertPrice := priceUsd tokenData\<rparr> \<in>
      (\<lambda>e. if entryKey e = entryKey entry then e\<lparr>lastAlertPrice := priceUsd tokenData\<rparr> else e) `
        set (loadWatchlist (store w))"
    using mem by (intro image_eqI [of _ _ entry]) simp_all
  with eq fire(6) show ?thesis unfolding t by simp
qed

lemma getMultipleTokensData_single:
  "getMultipleTokensData api chain [a] = (batchResults api chain [a] Map.empty, [Get chain [a]])"
  by (simp add: getMultipleTokensData_def batchLoop.simps batchSize_def Let_def)

lemma toLower_ABC: "toLowerCase ''ABC'' = ''abc''"
  by (simp add: toLowerCase_def lowerChar_def)

lemma sample_fetch:
  "fst (getMultipleTokensData (sampleUpstream (Some p)) ''solana'' [''abc'']) ''abc'' =
     Some (sampleData p)"
  by (simp add: getMultipleTokensData_single batchResults_def sampleUpstream_def pairsByToken_def
      pairKey_def samplePair_def toLower_ABC setBest_def sampleData_def pickBest_def)

lemma positivePrices_updateLastAlertPrice:
  assumes "positivePrices (loadWatchlist d)" and "0 < p"
  shows "positivePrices (loadWatchlist (updateLastAlertPrice address chain chat p d))"
proof (cases "updateFirst (sameKey address chain chat) (\<lambda>e. e\<lparr>lastAlertPrice := p\<rparr>) (loadWatchlist d)")
  case None
  with assms show ?thesis by (simp add: updateLastAlertPrice_def)
next
  case (Some ys)
  from updateFirst_Some_split [OF Some] obtain pre x post where
    "loadWatchlist d = pre @ x # post" "ys = pre @ x\<lparr>lastAlertPrice := p\<rparr> # post"
    by blast
  with assms have "positivePrices ys" by (simp add: positivePrices_def)
  with Some assms(1) show ?thesis by (simp add: updateLastAlertPrice_def load_save)
qed

lemma positivePrices_updateThreshold:
  assumes "positivePrices (loadWatchlist d)"
  shows "positivePrices (loadWatchlist (snd (updateThreshold address chain chat t d)))"
proof (cases "updateFirst (sameKey address chain chat) (\<lambda>e. e\<lparr>dropThreshold := t\<rparr>) (loadWatchlist d)")
  case None
  with assms show ?thesis by (simp add: updateThreshold_def)
next
  case (Some ys)
  from updateFirst_Some_split [OF Some] obtain pre x post where
    "loadWatchlist d = pre @ x # post" "ys = pre @ x\<lparr>dropThreshold := t\<rparr> # post"
    by blast
  with assms have "positivePrices ys" by (simp add: positivePrices_def)
  with Some assms(1) show ?thesis by (simp add: updateThreshold_def load_save)
qed

lemma positivePrices_remove:
  assumes "positivePrices (loadWatchlist d)"
  shows "positivePrices (loadWatchlist (snd (removeFromWatchlist address chain chat d)))"
  using assms
  by (auto simp: removeFromWatchlist_def Let_def load_save positivePrices_def list_all_iff)

lemma positivePrices_add:
  assumes "positivePrices (loadWatchlist d)" and "0 < price"
  shows "positivePrices (loadWatchlist (snd (addToWatchlist address chain nm smb price threshold chat now d)))"
  using assms
  by (auto simp: addToWatchlist_def Let_def load_save positivePrices_def)

lemma addToWatchlist_prices:
  assumes "addToWatchlist address chain nm smb price threshold chat now d = (Some entry, d')"
  shows "lastAlertPrice entry = price \<and> initialPrice entry = price"
  using assms by (auto simp: addToWatchlist_def Let_def split: if_splits)

lemma initialPrice_updateLastAlertPrice:
  "map initialPrice (loadWatchlist (updateLastAlertPrice address chain chat p d)) =
     map initialPrice (loadWatchlist d)"
  by (auto simp: updateLastAlertPrice_def load_save split: option.splits
      dest!: updateFirst_map_key [where k = initialPrice])

lemma positivePrices_checkPrices:
  assumes "positivePrices (loadWatchlist (store w))" and "checkPrices api tgBot w = Inr w'"
  shows "positivePrices (loadWatchlist (store w'))"
  using checkPrices_store_invariant [where P = "\<lambda>d. positivePrices (loadWatchlist d)", OF _ assms]
  by (simp add: positivePrices_updateLastAlertPrice)

lemma initialPrice_checkPrices:
  assumes "checkPrices api tgBot w = Inr w'"
  shows "map initialPrice (loadWatchlist (store w')) = map initialPrice (loadWatchlist (store w))"
  using checkPrices_store_invariant
    [where P = "\<lambda>d. map initialPrice (loadWatchlist d) = map initialPrice (loadWatchlist (store w))",
      OF _ _ assms]
  by (simp add: initialPrice_updateLastAlertPrice)

lemma processAdd_disk:
  "snd (processAdd api chat chain address threshold now d) =
     (case getTokenData api chain address of
        None \<Rightarrow> d
      | Some td \<Rightarrow> snd (addToWatchlist address chain (tokenName td) (tokenSymbol td) (priceUsd td)
          (Some threshold) chat now d))"
  by (simp add: processAdd_def split: option.splits prod.splits)

lemma samplePair_key: "pairKey (samplePair p) = Some ''abc''"
  by (simp add: pairKey_def samplePair_def toLower_ABC)

lemma toLower_XYZ: "toLowerCase ''XYZ'' = ''xyz''"
  by (simp add: toLowerCase_def lowerChar_def)

lemma strayPair_key: "pairKey strayPair = Some ''xyz''"
  by (simp add: pairKey_def strayPair_def samplePair_def toLower_XYZ)

section \<open>Properties of the scheduler\<close>

lemma tick_idle:
  assumes "\<forall>tm\<in>set (timers s). clock s + 1 < due tm"
  shows "tick s = s\<lparr>clock := clock s + 1\<rparr>"
proof -
  have "filter (\<lambda>tm. due tm \<le> clock s + 1) (timers s) = []"
    using assms by (auto simp: filter_empty_conv)
  moreover have "concat (map (fire (clock s + 1)) xs) = xs"
    if "\<forall>tm\<in>set xs. clock s + 1 < due tm" for xs
    using that by (induction xs) (auto simp: fire_def)
  ultimately show ?thesis using assms by (simp add: tick_def Let_def)
qed

lemma advance_idle:
  "\<forall>tm\<in>set (timers s). clock s + n < due tm \<Longrightarrow> advance n s = s\<lparr>clock := clock s + n\<rparr>"
proof (induction n arbitrary: s)
  case 0
  show ?case by simp
next
  case (Suc n)
  have t: "tick s = s\<lparr>clock := clock s + 1\<rparr>"
    using Suc.prems by (intro tick_idle) auto
  have "advance n (s\<lparr>clock := clock s + 1\<rparr>) = (s\<lparr>clock := clock s + 1\<rparr>)\<lparr>clock := clock (s\<lparr>clock := clock s + 1\<rparr>) + n\<rparr>"
    using Suc.prems by (intro Suc.IH) auto
  with t show ?case by simp
qed

lemma advance_add: "advance (m + n) s = advance n (advance m s)"
  by (induction m arbitrary: s) simp_all

lemma advance_Suc_end: "advance (Suc n) s = tick (advance n s)"
  using advance_add [of n 1 s] by simp

section \<open>Properties of the formatters\<close>

lemma fracDigits_numeral [simp]:
  "fracDigits (numeral k) m = fracDigits (pred_numeral k) (m div 10) @ [digit (m mod 10)]"
  by (simp only: numeral_eq_Suc [of k] fracDigits.simps)

lemma digit_simps [simp]:
  "digit 0 = CHR ''0''" "digit 1 = CHR ''1''" "digit 2 = CHR ''2''" "digit 3 = CHR ''3''"
  "digit 4 = CHR ''4''" "digit 5 = CHR ''5''" "digit 6 = CHR ''6''" "digit 7 = CHR ''7''"
  "digit 8 = CHR ''8''" "digit 9 = CHR ''9''" "digit (Suc 0) = CHR ''1''"
  by (simp_all add: digit_def)

lemma digitsOf_small: "n < 10 \<Longrightarrow> digitsOf n = [digit n]"
  by (subst digitsOf.simps) simp

lemma digitsOf_large: "10 \<le> n \<Longrightarrow> digitsOf n = digitsOf (n div 10) @ [digit (n mod 10)]"
  by (subst digitsOf.simps) simp

lemma digit_not_point: "k < 10 \<Longrightarrow> digit k \<noteq> CHR ''.''"
proof -
  assume "k < 10"
  then have "digit k \<in> set ''0123456789''"
    unfolding digit_def by (intro nth_mem) simp
  then show ?thesis by auto
qed

lemma fracDigits_length [simp]: "length (fracDigits d m) = d"
  by (induction d arbitrary: m) simp_all

lemma fracDigits_no_point: "CHR ''.'' \<notin> set (fracDigits d m)"
proof (induction d arbitrary: m)
  case 0
  show ?case by simp
next
  case (Suc d)
  have "digit (m mod 10) \<noteq> CHR ''.''" by (rule digit_not_point) simp
  with Suc show ?case by auto
qed

lemma decimals_point:
  assumes "CHR ''.'' \<notin> set ys"
  shows "decimals (xs @ CHR ''.'' # ys) = length ys"
proof -
  have "takeWhile (\<lambda>c. c \<noteq> CHR ''.'') (rev ys @ CHR ''.'' # rev xs) = rev ys"
    using assms by (intro takeWhile_tail [THEN trans]) (auto simp: takeWhile_eq_all_conv)
  then show ?thesis by (simp add: decimals_def)
qed

lemma decimals_frac: "decimals (xs @ CHR ''.'' # fracDigits d m) = d"
  using decimals_point [OF fracDigits_no_point] by simp

lemma decimals_toFixed: "0 < d \<Longrightarrow> decimals (pre @ toFixed d x) = d"
proof -
  assume "0 < d"
  then have "pre @ toFixed d x =
      (pre @ signOf x @ digitsOf (nat \<lfloor>\<bar>x\<bar> * 10 ^ d + 1 / 2\<rfloor> div 10 ^ d)) @
        CHR ''.'' # fracDigits d (nat \<lfloor>\<bar>x\<bar> * 10 ^ d + 1 / 2\<rfloor> mod 10 ^ d)"
    by (simp add: toFixed_def Let_def)
  then show ?thesis by (simp only: decimals_frac)
qed

lemma decimals_toLocaleString2: "decimals (pre @ toLocaleString2 x) = 2"
proof -
  have "pre @ toLocaleString2 x =
      (pre @ signOf x @ groupThousands (digitsOf (nat \<lfloor>\<bar>x\<bar> * 100 + 1 / 2\<rfloor> div 100))) @
        CHR ''.'' # fracDigits 2 (nat \<lfloor>\<bar>x\<bar> * 100 + 1 / 2\<rfloor> mod 100)"
    by (simp only: toLocaleString2_def Let_def append_assoc append_Cons append_Nil)
  then show ?thesis by (simp only: decimals_frac)
qed

lemma toFixed_half: "toFixed 6 (1 / 2) = ''0.500000''"
  by (simp add: toFixed_def Let_def signOf_def digitsOf_small)

lemma toFixed_64th: "toFixed 6 (1 / 64) = ''0.015625''"
  by (simp add: toFixed_def Let_def signOf_def digitsOf_small)

text \<open>
  The digit count and the exponent are the right ones: a positive number lies between
  the powers of ten that \<open>digitsOf\<close> and \<open>floorLog10\<close> give.
\<close>

lemma digitsOf_bounds:
  "0 < n \<Longrightarrow> 10 ^ (length (digitsOf n) - 1) \<le> n \<and> n < 10 ^ length (digitsOf n)"
proof (induction n rule: digitsOf.induct)
  case (1 n)
  show ?case
  proof (cases "n < 10")
    case True
    with "1.prems" show ?thesis by (simp add: digitsOf_small)
  next
    case False
    then have pos: "0 < n div 10" by simp
    let ?k = "length (digitsOf (n div 10))"
    from "1.IH" [OF False pos] have lo: "10 ^ (?k - 1) \<le> n div 10" and hi: "n div 10 < 10 ^ ?k"
      by simp_all
    have k: "0 < ?k" by (subst digitsOf.simps) simp
    have len: "length (digitsOf n) = Suc ?k" using False by (simp add: digitsOf_large)
    from lo have "10 * 10 ^ (?k - 1) \<le> n" by simp
    with k have "10 ^ ?k \<le> n" by (cases ?k) simp_all
    moreover from hi have "n < 10 * 10 ^ ?k" by simp
    ultimately show ?thesis by (simp add: len)
  qed
qed

lemma digitsOf_nonempty: "0 < length (digitsOf n)"
  by (subst digitsOf.simps) simp

lemma digitsOf_floor_bounds:
  assumes "1 \<le> (y::real)"
  shows "10 ^ (length (digitsOf (nat \<lfloor>y\<rfloor>)) - 1) \<le> y \<and> y < 10 ^ length (digitsOf (nat \<lfloor>y\<rfloor>))"
proof -
  let ?n = "nat \<lfloor>y\<rfloor>"
  let ?k = "length (digitsOf ?n)"
  from assms have n: "0 < ?n" by simp
  from digitsOf_bounds [OF n] have lo: "10 ^ (?k - 1) \<le> ?n" and hi: "?n < 10 ^ ?k" by simp_all
  from lo have "real (10 ^ (?k - 1)) \<le> real ?n" by (simp only: of_nat_le_iff)
  also have "real ?n \<le> y" using assms by simp
  finally have a: "10 ^ (?k - 1) \<le> y" by simp
  from hi have "Suc ?n \<le> 10 ^ ?k" by (rule Suc_leI)
  then have "real (Suc ?n) \<le> real (10 ^ ?k)" by (simp only: of_nat_le_iff)
  moreover have "y < real (Suc ?n)"
  proof -
    have "0 \<le> \<lfloor>y\<rfloor>" using assms by simp
    then have eq: "real (Suc ?n) = of_int \<lfloor>y\<rfloor> + 1" by simp
    have "y < of_int \<lfloor>y\<rfloor> + 1" by linarith
    then show ?thesis unfolding eq .
  qed
  ultimately have b: "y < 10 ^ ?k" by simp
  from a b show ?thesis by simp
qed

lemma floorLog10_ge_one:
  assumes "1 \<le> x"
  shows "0 \<le> floorLog10 x \<and> 10 ^ nat (floorLog10 x) \<le> x \<and> x < 10 ^ Suc (nat (floorLog10 x))"
proof -
  let ?k = "length (digitsOf (nat \<lfloor>x\<rfloor>))"
  have k: "0 < ?k" by (rule digitsOf_nonempty)
  have "floorLog10 x = int ?k - 1" using assms by (simp add: floorLog10_def)
  with k have fl: "floorLog10 x = int (?k - 1)" by linarith
  from k have s: "Suc (?k - 1) = ?k" by simp
  from digitsOf_floor_bounds [OF assms]
  have "10 ^ (?k - 1) \<le> x" and "x < 10 ^ Suc (?k - 1)" unfolding s by blast+
  then show ?thesis unfolding fl nat_int by simp
qed

lemma floorLog10_lt_one:
  assumes "0 < x" and "x < 1"
  shows "floorLog10 x < 0 \<and> 1 \<le> x * 10 ^ nat (- floorLog10 x) \<and>
         x * 10 ^ nat (- floorLog10 x) < 10"
proof -
  let ?k = "length (digitsOf (nat \<lfloor>1 / x\<rfloor>))"
  from assms have y: "1 \<le> 1 / x" by simp
  obtain m where m: "?k = Suc m"
    using digitsOf_nonempty [of "nat \<lfloor>1 / x\<rfloor>"] by (cases ?k) simp_all
  from digitsOf_floor_bounds [OF y] have "10 ^ m \<le> 1 / x" and "1 / x < 10 ^ Suc m"
    unfolding m by simp_all
  with assms(1) have lo: "x * 10 ^ m \<le> 1" and hi: "1 < x * 10 ^ Suc m"
    by (simp_all add: field_simps)
  show ?thesis
  proof (cases "x * 10 ^ m = 1")
    case True
    have "floorLog10 x = - int (?k - 1)"
      using assms(2) True unfolding floorLog10_def Let_def m by simp
    then have fl: "floorLog10 x = - int m" unfolding m by simp
    have "m \<noteq> 0" using True assms(2) by (cases m) simp_all
    with True show ?thesis unfolding fl by simp
  next
    case False
    have "floorLog10 x = - int ?k"
      using assms(2) False unfolding floorLog10_def Let_def m by simp
    then have fl: "floorLog10 x = - int (Suc m)" unfolding m by simp
    from lo False have "x * 10 ^ m < 1" by simp
    then have up: "x * 10 ^ Suc m < 10" by simp
    have n: "nat (- (- int (Suc m))) = Suc m" by simp
    from hi up show ?thesis unfolding fl n by simp
  qed
qed

text \<open>The tiers of the formatters, with the thresholds the doubles they are.\<close>

lemma double_thresholds:
  "roundDouble (1 / 10 ^ 8) = 3022314549036573 / 2 ^ 78"
  "roundDouble (1 / 10 ^ 4) = 7378697629483821 / 2 ^ 66"
  "roundDouble (1 / 10 ^ 9) = 4835703278458517 / 2 ^ 82"
  by (simp_all add: roundDouble_def floorLog2_def roundHalfEven_def Let_def)

lemma double_thresholds_order:
  "0 < roundDouble (1 / 10 ^ 8)" "roundDouble (1 / 10 ^ 8) < roundDouble (1 / 10 ^ 4)"
  "roundDouble (1 / 10 ^ 4) < 1" "roundDouble (1 / 10 ^ 9) < roundDouble (1 / 10 ^ 8)"
  "roundDouble (1 / 10 ^ 9) \<noteq> 0"
  unfolding double_thresholds by simp_all

lemma formatPrice_exponential:
  "price \<noteq> 0 \<Longrightarrow> price < roundDouble (1 / 10 ^ 8) \<Longrightarrow>
     formatPrice price = ''$'' @ toExponential 4 price"
  unfolding formatPrice_def by (simp only: if_False if_True)

lemma formatPrice_strip10:
  assumes "roundDouble (1 / 10 ^ 8) \<le> price" and "price < roundDouble (1 / 10 ^ 4)"
  shows "formatPrice price = ''$'' @ stripZeros (toFixed 10 price)"
proof -
  from assms double_thresholds_order(1)
  have "price \<noteq> 0" "\<not> price < roundDouble (1 / 10 ^ 8)" by linarith+
  with assms show ?thesis unfolding formatPrice_def by (simp only: if_False if_True)
qed

lemma formatPrice_strip6:
  assumes "roundDouble (1 / 10 ^ 4) \<le> price" and "price < 1"
  shows "formatPrice price = ''$'' @ stripZeros (toFixed 6 price)"
proof -
  from assms double_thresholds_order(1,2)
  have "price \<noteq> 0" "\<not> price < roundDouble (1 / 10 ^ 8)"
    "\<not> price < roundDouble (1 / 10 ^ 4)" by linarith+
  with assms show ?thesis unfolding formatPrice_def by (simp only: if_False if_True)
qed

lemma formatPrice_fixed4:
  assumes "1 \<le> price" and "price < 1000"
  shows "formatPrice price = ''$'' @ toFixed 4 price"
proof -
  from assms double_thresholds_order(1,2,3)
  have "price \<noteq> 0" "\<not> price < roundDouble (1 / 10 ^ 8)"
    "\<not> price < roundDouble (1 / 10 ^ 4)" "\<not> price < 1" by linarith+
  with assms show ?thesis unfolding formatPrice_def by (simp only: if_False if_True)
qed

lemma formatPrice_grouped:
  assumes "1000 \<le> price"
  shows "formatPrice price = ''$'' @ toLocaleString2 price"
proof -
  from assms double_thresholds_order(1,2,3)
  have "price \<noteq> 0" "\<not> price < roundDouble (1 / 10 ^ 8)"
    "\<not> price < roundDouble (1 / 10 ^ 4)" "\<not> price < 1" "\<not> price < 1000" by linarith+
  then show ?thesis unfolding formatPrice_def by (simp only: if_False if_True)
qed

lemma small_doubles:
  "roundDouble (1 / 10 ^ 4) \<le> 1 / 2" "roundDouble (1 / 10 ^ 4) \<le> 1 / 64"
  "roundDouble (1 / 10 ^ 4) \<le> 1 / 128"
  "roundDouble (1 / 10 ^ 8) \<le> 1 / 2 ^ 20" "1 / 2 ^ 20 < roundDouble (1 / 10 ^ 4)"
  unfolding double_thresholds by simp_all

lemma formatMarketCap_tiers:
  "10 ^ 12 \<le> cap \<Longrightarrow>
     formatMarketCap (Some cap) = ''$'' @ toFixed 2 (roundDouble (cap / 10 ^ 12)) @ ''T''"
  "10 ^ 9 \<le> cap \<Longrightarrow> cap < 10 ^ 12 \<Longrightarrow>
     formatMarketCap (Some cap) = ''$'' @ toFixed 2 (roundDouble (cap / 10 ^ 9)) @ ''B''"
  "10 ^ 6 \<le> cap \<Longrightarrow> cap < 10 ^ 9 \<Longrightarrow>
     formatMarketCap (Some cap) = ''$'' @ toFixed 2 (roundDouble (cap / 10 ^ 6)) @ ''M''"
  "10 ^ 3 \<le> cap \<Longrightarrow> cap < 10 ^ 6 \<Longrightarrow>
     formatMarketCap (Some cap) = ''$'' @ toFixed 2 (roundDouble (cap / 10 ^ 3)) @ ''K''"
  "cap \<noteq> 0 \<Longrightarrow> cap < 10 ^ 3 \<Longrightarrow> formatMarketCap (Some cap) = ''$'' @ toFixed 2 cap"
  by (simp_all add: formatMarketCap_def)

lemma roundDouble_one [simp]: "roundDouble 1 = 1"
  by (simp add: roundDouble_def floorLog2_def roundHalfEven_def Let_def)

lemma toFixed_one: "toFixed 2 1 = ''1.00''" "toFixed 4 1 = ''1.0000''"
  by (simp_all add: toFixed_def Let_def signOf_def digitsOf_small)

lemma quotient_below_limit:
  assumes "0 \<le> q" and "q < 10 ^ 20"
  shows "roundDouble q < 10 ^ 21"
proof -
  have "roundDouble q - q \<le> \<bar>roundDouble q - q\<bar>" by simp
  also have "\<dots> \<le> \<bar>q\<bar> / 2 ^ 53" by (rule roundDouble_error)
  also have "\<dots> \<le> q" using assms(1) by simp
  finally have "roundDouble q \<le> 2 * q" by simp
  with assms(2) show ?thesis by simp
qed

section \<open>Claims\<close>




text \<open>
  C2. When an alert fires for an entry of a writable store with distinct keys (the
  computed change reaches the threshold), the entry is rewritten with the triggering
  price as its reference price, whatever the bot does with the notification, and no
  other entry changes. For a store that holds one entry with threshold 5 and reference
  price 1.00, four sweeps that fetch the doubles 0.94, 0.89, 0.92 and 0.84 leave the
  reference price at 0.94, 0.89, 0.89 and 0.84 and fire exactly three alerts. The
  computed changes are \<open>-6.000000000000005\<close>, \<open>-5.319148936170206\<close> and
  \<open>-5.6179775280898925\<close> for the alerts, and \<open>3.3707865168539355\<close> for the quiet sweep;
  with two decimals they print as \<open>-6.00\<close>, \<open>-5.32\<close>, \<open>-5.62\<close> and \<open>3.37\<close>.
\<close>

theorem alert_resets_reference:
  shows "(tokenDataMap (toLowerCase (tokenAddress entry)) = Some tokenData \<and>
          0 < lastAlertPrice entry \<and> 0 < priceUsd tokenData \<and>
          dropThreshold entry \<le>
            \<bar>percentChangeOf (priceUsd tokenData) (lastAlertPrice entry)\<bar> \<and>
          writable (store w) \<and> uniqueKeys (loadWatchlist (store w)) \<and>
          entry \<in> set (loadWatchlist (store w)) \<longrightarrow>
            (\<exists>w'. checkEntry tgBot tokenDataMap entry w = Inr w' \<and>
               loadWatchlist (store w') =
                 map (\<lambda>e. if entryKey e = entryKey entry
                          then e\<lparr>lastAlertPrice := priceUsd tokenData\<rparr> else e)
                   (loadWatchlist (store w)) \<and>
               entry\<lparr>lastAlertPrice := priceUsd tokenData\<rparr> \<in> set (loadWatchlist (store w')))) \<and>
         (loadWatchlist (store w0) = [e] \<and> writable (store w0) \<and>
          dropThreshold e = 5 \<and> lastAlertPrice e = 1 \<and>
          fst (getMultipleTokensData api1 (chainId e) [tokenAddress e])
            (toLowerCase (tokenAddress e)) = Some td1 \<and>
          priceUsd td1 = roundDouble (94 / 100) \<and>
          fst (getMultipleTokensData api2 (chainId e) [tokenAddress e])
            (toLowerCase (tokenAddress e)) = Some td2 \<and>
          priceUsd td2 = roundDouble (89 / 100) \<and>
          fst (getMultipleTokensData api3 (chainId e) [tokenAddress e])
            (toLowerCase (tokenAddress e)) = Some td3 \<and>
          priceUsd td3 = roundDouble (92 / 100) \<and>
          fst (getMultipleTokensData api4 (chainId e) [tokenAddress e])
            (toLowerCase (tokenAddress e)) = Some td4 \<and>
          priceUsd td4 = roundDouble (84 / 100) \<longrightarrow>
            (\<exists>w1 w2 w3 w4.
               checkPrices api1 tgBot w0 = Inr w1 \<and>
               loadWatchlist (store w1) = [e\<lparr>lastAlertPrice := roundDouble (94 / 100)\<rparr>] \<and>
               firedAlerts (console w1) =
                 firedAlerts (console w0) @ [- (3377699720527875 / 2 ^ 49)] \<and>
               checkPrices api2 tgBot w1 = Inr w2 \<and>
               loadWatchlist (store w2) = [e\<lparr>lastAlertPrice := roundDouble (89 / 100)\<rparr>] \<and>
               firedAlerts (console w2) =
                 firedAlerts (console w1) @ [- (5988829291716077 / 2 ^ 50)] \<and>
               checkPrices api3 tgBot w2 = Inr w3 \<and>
               loadWatchlist (store w3) = [e\<lparr>lastAlertPrice := roundDouble (89 / 100)\<rparr>] \<and>
               firedAlerts (console w3) = firedAlerts (console w2) \<and>
               percentChangeOf (roundDouble (92 / 100)) (roundDouble (89 / 100)) =
                 3795168225312219 / 2 ^ 50 \<and>
               checkPrices api4 tgBot w3 = Inr w4 \<and>
               loadWatchlist (store w4) = [e\<lparr>lastAlertPrice := roundDouble (84 / 100)\<rparr>] \<and>
               firedAlerts (console w4) =
                 firedAlerts (console w0) @
                   [- (3377699720527875 / 2 ^ 49), - (5988829291716077 / 2 ^ 50),
                    - (6325280375520365 / 2 ^ 50)] \<and>
               map (toFixed 2)
                   [- (3377699720527875 / 2 ^ 49), - (5988829291716077 / 2 ^ 50),
                    3795168225312219 / 2 ^ 50, - (6325280375520365 / 2 ^ 50)] =
                 [''-6.00'', ''-5.32'', ''3.37'', ''-5.62'']))"
proof (intro conjI impI)
  assume "tokenDataMap (toLowerCase (tokenAddress entry)) = Some tokenData \<and>
          0 < lastAlertPrice entry \<and> 0 < priceUsd tokenData \<and>
          dropThreshold entry \<le>
            \<bar>percentChangeOf (priceUsd tokenData) (lastAlertPrice entry)\<bar> \<and>
          writable (store w) \<and> uniqueKeys (loadWatchlist (store w)) \<and>
          entry \<in> set (loadWatchlist (store w))"
  then show "\<exists>w'. checkEntry tgBot tokenDataMap entry w = Inr w' \<and>
               loadWatchlist (store w') =
                 map (\<lambda>e. if entryKey e = entryKey entry
                          then e\<lparr>lastAlertPrice := priceUsd tokenData\<rparr> else e)
                   (loadWatchlist (store w)) \<and>
               entry\<lparr>lastAlertPrice := priceUsd tokenData\<rparr> \<in> set (loadWatchlist (store w'))"
    by (elim conjE) (rule checkEntry_fire_store)
next
  define p1 where "p1 = roundDouble (94 / 100)"
  define p2 where "p2 = roundDouble (89 / 100)"
  define p3 where "p3 = roundDouble (92 / 100)"
  define p4 where "p4 = roundDouble (84 / 100)"
  define c1 :: real where "c1 = - (3377699720527875 / 2 ^ 49)"
  define c2 :: real where "c2 = - (5988829291716077 / 2 ^ 50)"
  define c3 :: real where "c3 = 3795168225312219 / 2 ^ 50"
  define c4 :: real where "c4 = - (6325280375520365 / 2 ^ 50)"
  note ev = percentChangeOf_def roundDouble_def floorLog2_def roundHalfEven_def Let_def
  have v1: "percentChangeOf p1 1 = c1" unfolding p1_def c1_def by (simp add: ev)
  have v2: "percentChangeOf p2 p1 = c2" unfolding p1_def p2_def c2_def by (simp add: ev)
  have v3: "percentChangeOf p3 p2 = c3" unfolding p3_def p2_def c3_def by (simp add: ev)
  have v4: "percentChangeOf p4 p2 = c4" unfolding p4_def p2_def c4_def by (simp add: ev)
  have t1: "5 \<le> \<bar>c1\<bar>" and t2: "5 \<le> \<bar>c2\<bar>" and t3: "\<not> 5 \<le> \<bar>c3\<bar>" and t4: "5 \<le> \<bar>c4\<bar>"
    unfolding c1_def c2_def c3_def c4_def by simp_all
  have pos: "0 < p1" "0 < p2" "0 < p3" "0 < p4"
    unfolding p1_def p2_def p3_def p4_def by (simp_all add: roundDouble_sign)
  have shown: "map (toFixed 2) [c1, c2, c3, c4] = [''-6.00'', ''-5.32'', ''3.37'', ''-5.62'']"
    unfolding c1_def c2_def c3_def c4_def
    by (simp add: toFixed_def Let_def signOf_def digitsOf_small)
  assume "loadWatchlist (store w0) = [e] \<and> writable (store w0) \<and>
          dropThreshold e = 5 \<and> lastAlertPrice e = 1 \<and>
          fst (getMultipleTokensData api1 (chainId e) [tokenAddress e])
            (toLowerCase (tokenAddress e)) = Some td1 \<and>
          priceUsd td1 = roundDouble (94 / 100) \<and>
          fst (getMultipleTokensData api2 (chainId e) [tokenAddress e])
            (toLowerCase (tokenAddress e)) = Some td2 \<and>
          priceUsd td2 = roundDouble (89 / 100) \<and>
          fst (getMultipleTokensData api3 (chainId e) [tokenAddress e])
            (toLowerCase (tokenAddress e)) = Some td3 \<and>
          priceUsd td3 = roundDouble (92 / 100) \<and>
          fst (getMultipleTokensData api4 (chainId e) [tokenAddress e])
            (toLowerCase (tokenAddress e)) = Some td4 \<and>
          priceUsd td4 = roundDouble (84 / 100)"
  then have a: "loadWatchlist (store w0) = [e]" "writable (store w0)"
      "dropThreshold e = 5" "lastAlertPrice e = 1"
      "fst (getMultipleTokensData api1 (chainId e) [tokenAddress e])
            (toLowerCase (tokenAddress e)) = Some td1" "priceUsd td1 = p1"
      "fst (getMultipleTokensData api2 (chainId e) [tokenAddress e])
            (toLowerCase (tokenAddress e)) = Some td2" "priceUsd td2 = p2"
      "fst (getMultipleTokensData api3 (chainId e) [tokenAddress e])
            (toLowerCase (tokenAddress e)) = Some td3" "priceUsd td3 = p3"
      "fst (getMultipleTokensData api4 (chainId e) [tokenAddress e])
            (toLowerCase (tokenAddress e)) = Some td4" "priceUsd td4 = p4"
    unfolding p1_def p2_def p3_def p4_def by blast+
  let ?e1 = "e\<lparr>lastAlertPrice := p1\<rparr>"
  let ?e2 = "e\<lparr>lastAlertPrice := p2\<rparr>"
  let ?e4 = "e\<lparr>lastAlertPrice := p4\<rparr>"
  from a pos v1 t1 sweep_single [of w0 e api1 td1 tgBot]
  obtain w1 where w1: "checkPrices api1 tgBot w0 = Inr w1" "writable (store w1)"
    "loadWatchlist (store w1) = [?e1]"
    "firedAlerts (console w1) = firedAlerts (console w0) @ [c1]"
    by auto
  from a pos v2 t2 w1 sweep_single [of w1 ?e1 api2 td2 tgBot]
  obtain w2 where w2: "checkPrices api2 tgBot w1 = Inr w2" "writable (store w2)"
    "loadWatchlist (store w2) = [?e2]"
    "firedAlerts (console w2) = firedAlerts (console w1) @ [c2]"
    by auto
  from a pos v3 t3 w2 sweep_single [of w2 ?e2 api3 td3 tgBot]
  obtain w3 where w3: "checkPrices api3 tgBot w2 = Inr w3" "writable (store w3)"
    "loadWatchlist (store w3) = [?e2]"
    "firedAlerts (console w3) = firedAlerts (console w2)"
    by auto
  from a pos v4 t4 w3 sweep_single [of w3 ?e2 api4 td4 tgBot]
  obtain w4 where w4: "checkPrices api4 tgBot w3 = Inr w4" "writable (store w4)"
    "loadWatchlist (store w4) = [?e4]"
    "firedAlerts (console w4) = firedAlerts (console w3) @ [c4]"
    by auto
  have "checkPrices api1 tgBot w0 = Inr w1 \<and>
               loadWatchlist (store w1) = [e\<lparr>lastAlertPrice := p1\<rparr>] \<and>
               firedAlerts (console w1) = firedAlerts (console w0) @ [c1] \<and>
               checkPrices api2 tgBot w1 = Inr w2 \<and>
               loadWatchlist (store w2) = [e\<lparr>lastAlertPrice := p2\<rparr>] \<and>
               firedAlerts (console w2) = firedAlerts (console w1) @ [c2] \<and>
               checkPrices api3 tgBot w2 = Inr w3 \<and>
               loadWatchlist (store w3) = [e\<lparr>lastAlertPrice := p2\<rparr>] \<and>
               firedAlerts (console w3) = firedAlerts (console w2) \<and>
               percentChangeOf p3 p2 = c3 \<and>
               checkPrices api4 tgBot w3 = Inr w4 \<and>
               loadWatchlist (store w4) = [e\<lparr>lastAlertPrice := p4\<rparr>] \<and>
               firedAlerts (console w4) = firedAlerts (console w0) @ [c1, c2, c4] \<and>
               map (toFixed 2) [c1, c2, c3, c4] = [''-6.00'', ''-5.32'', ''3.37'', ''-5.62'']"
    using w1 w2 w3 w4 v3 shown by simp
  then show "\<exists>w1 w2 w3 w4.
               checkPrices api1 tgBot w0 = Inr w1 \<and>
               loadWatchlist (store w1) = [e\<lparr>lastAlertPrice := roundDouble (94 / 100)\<rparr>] \<and>
               firedAlerts (console w1) =
                 firedAlerts (console w0) @ [- (3377699720527875 / 2 ^ 49)] \<and>
               checkPrices api2 tgBot w1 = Inr w2 \<and>
               loadWatchlist (store w2) = [e\<lparr>lastAlertPrice := roundDouble (89 / 100)\<rparr>] \<and>
               firedAlerts (console w2) =
                 firedAlerts (console w1) @ [- (5988829291716077 / 2 ^ 50)] \<and>
               checkPrices api3 tgBot w2 = Inr w3 \<and>
               loadWatchlist (store w3) = [e\<lparr>lastAlertPrice := roundDouble (89 / 100)\<rparr>] \<and>
               firedAlerts (console w3) = firedAlerts (console w2) \<and>
               percentChangeOf (roundDouble (92 / 100)) (roundDouble (89 / 100)) =
                 3795168225312219 / 2 ^ 50 \<and>
               checkPrices api4 tgBot w3 = Inr w4 \<and>
               loadWatchlist (store w4) = [e\<lparr>lastAlertPrice := roundDouble (84 / 100)\<rparr>] \<and>
               firedAlerts (console w4) =
                 firedAlerts (console w0) @
                   [- (3377699720527875 / 2 ^ 49), - (5988829291716077 / 2 ^ 50),
                    - (6325280375520365 / 2 ^ 50)] \<and>
               map (toFixed 2)
                   [- (3377699720527875 / 2 ^ 49), - (5988829291716077 / 2 ^ 50),
                    3795168225312219 / 2 ^ 50, - (6325280375520365 / 2 ^ 50)] =
                 [''-6.00'', ''-5.32'', ''3.37'', ''-5.62'']"
    unfolding p1_def p2_def p3_def p4_def c1_def c2_def c3_def c4_def
    by (intro exI [of _ w1] exI [of _ w2] exI [of _ w3] exI [of _ w4])
qed

theorem alert_resets_reference_witness:
  "\<exists>w1 w2 w3 w4.
     checkPrices (sampleUpstream (Some (roundDouble (94 / 100)))) (Some failingBot) sampleWorld =
       Inr w1 \<and>
     loadWatchlist (store w1) = [sampleEntry\<lparr>lastAlertPrice := roundDouble (94 / 100)\<rparr>] \<and>
     checkPrices (sampleUpstream (Some (roundDouble (89 / 100)))) (Some failingBot) w1 = Inr w2 \<and>
     loadWatchlist (store w2) = [sampleEntry\<lparr>lastAlertPrice := roundDouble (89 / 100)\<rparr>] \<and>
     checkPrices (sampleUpstream (Some (roundDouble (92 / 100)))) (Some failingBot) w2 = Inr w3 \<and>
     loadWatchlist (store w3) = [sampleEntry\<lparr>lastAlertPrice := roundDouble (89 / 100)\<rparr>] \<and>
     checkPrices (sampleUpstream (Some (roundDouble (84 / 100)))) (Some failingBot) w3 = Inr w4 \<and>
     loadWatchlist (store w4) = [sampleEntry\<lparr>lastAlertPrice := roundDouble (84 / 100)\<rparr>] \<and>
     firedAlerts (console w4) =
       [- (3377699720527875 / 2 ^ 49), - (5988829291716077 / 2 ^ 50),
        - (6325280375520365 / 2 ^ 50)]"
proof -
  define p1 where "p1 = roundDouble (94 / 100)"
  define p2 where "p2 = roundDouble (89 / 100)"
  define p3 where "p3 = roundDouble (92 / 100)"
  define p4 where "p4 = roundDouble (84 / 100)"
  note inst = alert_resets_reference
    [where ?w0.0 = sampleWorld and e = sampleEntry and tgBot = "Some failingBot"
      and ?api1.0 = "sampleUpstream (Some p1)" and ?td1.0 = "sampleData p1"
      and ?api2.0 = "sampleUpstream (Some p2)" and ?td2.0 = "sampleData p2"
      and ?api3.0 = "sampleUpstream (Some p3)" and ?td3.0 = "sampleData p3"
      and ?api4.0 = "sampleUpstream (Some p4)" and ?td4.0 = "sampleData p4",
      THEN conjunct2, folded p1_def p2_def p3_def p4_def]
  have hyps: "loadWatchlist (store sampleWorld) = [sampleEntry] \<and> writable (store sampleWorld) \<and>
      dropThreshold sampleEntry = 5 \<and> lastAlertPrice sampleEntry = 1 \<and>
      fst (getMultipleTokensData (sampleUpstream (Some p1)) (chainId sampleEntry) [tokenAddress sampleEntry])
        (toLowerCase (tokenAddress sampleEntry)) = Some (sampleData p1) \<and>
      priceUsd (sampleData p1) = p1 \<and>
      fst (getMultipleTokensData (sampleUpstream (Some p2)) (chainId sampleEntry) [tokenAddress sampleEntry])
        (toLowerCase (tokenAddress sampleEntry)) = Some (sampleData p2) \<and>
      priceUsd (sampleData p2) = p2 \<and>
      fst (getMultipleTokensData (sampleUpstream (Some p3)) (chainId sampleEntry) [tokenAddress sampleEntry])
        (toLowerCase (tokenAddress sampleEntry)) = Some (sampleData p3) \<and>
      priceUsd (sampleData p3) = p3 \<and>
      fst (getMultipleTokensData (sampleUpstream (Some p4)) (chainId sampleEntry) [tokenAddress sampleEntry])
        (toLowerCase (tokenAddress sampleEntry)) = Some (sampleData p4) \<and>
      priceUsd (sampleData p4) = p4"
    using sample_fetch [of p1] sample_fetch [of p2] sample_fetch [of p3] sample_fetch [of p4]
    by (simp add: sampleEntry_fields sampleWorld_fields toLower_abc)
  from inst [THEN mp, OF hyps] show ?thesis
    unfolding p1_def [symmetric] p2_def [symmetric] p3_def [symmetric] p4_def [symmetric]
    by (simp add: sampleWorld_fields) blast
qed

text \<open>
  C3. When the stored reference price or the fetched price is zero or negative, the
  evaluator returns before the percent change is formed: the world after the entry is
  the world before it, whatever the bot and the threshold are, so nothing is sent,
  nothing is logged and nothing is written. Conversely an evaluation that writes the
  store, delivers a message or logs an alert had a positive reference price and a
  positive fetched price, so the divisor was positive. A sweep over a store whose
  reference prices are all non-positive changes neither the store nor the messages
  delivered.
\<close>

theorem checkEntry_skips_nonpositive:
  shows "(tokenDataMap (toLowerCase (tokenAddress entry)) = Some tokenData \<and>
          (lastAlertPrice entry \<le> 0 \<or> priceUsd tokenData \<le> 0) \<longrightarrow>
            checkEntry tgBot tokenDataMap entry w = Inr w) \<and>
         (\<forall>w'. checkEntry tgBot tokenDataMap entry w = Inr w' \<and>
                (store w' \<noteq> store w \<or> delivered w' \<noteq> delivered w \<or>
                 firedAlerts (console w') \<noteq> firedAlerts (console w)) \<longrightarrow>
            0 < lastAlertPrice entry \<and>
            (\<exists>td. tokenDataMap (toLowerCase (tokenAddress entry)) = Some td \<and> 0 < priceUsd td)) \<and>
         ((\<forall>e\<in>set (loadWatchlist (store w)). lastAlertPrice e \<le> 0) \<longrightarrow>
            (\<exists>w'. checkPrices api tgBot w = Inr w' \<and> store w' = store w \<and>
               delivered w' = delivered w \<and>
               firedAlerts (console w') = firedAlerts (console w)))"
proof -
  have skip: "checkEntry tgBot tokenDataMap entry w = Inr w"
    if "tokenDataMap (toLowerCase (tokenAddress entry)) = Some tokenData"
      "lastAlertPrice entry \<le> 0 \<or> priceUsd tokenData \<le> 0"
    using that by (auto simp: checkEntry_def)
  have active: "0 < lastAlertPrice entry \<and>
      (\<exists>td. tokenDataMap (toLowerCase (tokenAddress entry)) = Some td \<and> 0 < priceUsd td)"
    if "checkEntry tgBot tokenDataMap entry w = Inr w'"
      "store w' \<noteq> store w \<or> delivered w' \<noteq> delivered w \<or>
       firedAlerts (console w') \<noteq> firedAlerts (console w)" for w'
    using that
    by (cases rule: checkEntry_cases [of tokenDataMap entry tgBot w])
       (auto simp: firedAlerts_append)
  have sweep: "(\<forall>e\<in>set (loadWatchlist (store w)). lastAlertPrice e \<le> 0) \<longrightarrow>
            (\<exists>w'. checkPrices api tgBot w = Inr w' \<and> store w' = store w \<and>
               delivered w' = delivered w \<and>
               firedAlerts (console w') = firedAlerts (console w))"
    using checkPrices_quiet_reference [of w api tgBot] by (rule impI)
  from skip have first: "tokenDataMap (toLowerCase (tokenAddress entry)) = Some tokenData \<and>
          (lastAlertPrice entry \<le> 0 \<or> priceUsd tokenData \<le> 0) \<longrightarrow>
            checkEntry tgBot tokenDataMap entry w = Inr w"
    by (intro impI) (elim conjE)
  from active have second: "\<forall>w'. checkEntry tgBot tokenDataMap entry w = Inr w' \<and>
                (store w' \<noteq> store w \<or> delivered w' \<noteq> delivered w \<or>
                 firedAlerts (console w') \<noteq> firedAlerts (console w)) \<longrightarrow>
            0 < lastAlertPrice entry \<and>
            (\<exists>td. tokenDataMap (toLowerCase (tokenAddress entry)) = Some td \<and> 0 < priceUsd td)"
    by (intro allI impI) (elim conjE)
  from first second sweep show ?thesis by (intro conjI)
qed


theorem checkEntry_skips_nonpositive_witness:
  "checkEntry (Some workingBot) [''abc'' \<mapsto> sampleData 0] sampleEntry sampleWorld = Inr sampleWorld \<and>
   checkEntry (Some workingBot) [''abc'' \<mapsto> sampleData (- 2)] sampleEntry sampleWorld = Inr sampleWorld \<and>
   checkEntry (Some workingBot) [''abc'' \<mapsto> sampleData 3] (sampleEntry\<lparr>lastAlertPrice := 0\<rparr>)
     sampleWorld = Inr sampleWorld"
proof -
  have addr: "toLowerCase (tokenAddress sampleEntry) = ''abc''"
    "toLowerCase (tokenAddress (sampleEntry\<lparr>lastAlertPrice := 0\<rparr>)) = ''abc''"
    by (simp_all add: sampleEntry_def toLower_abc)
  have a: "checkEntry (Some workingBot) [''abc'' \<mapsto> sampleData 0] sampleEntry sampleWorld = Inr sampleWorld"
    using checkEntry_skips_nonpositive
      [of "[''abc'' \<mapsto> sampleData 0]" sampleEntry "sampleData 0" "Some workingBot" sampleWorld,
        THEN conjunct1]
    by (simp add: addr)
  have b: "checkEntry (Some workingBot) [''abc'' \<mapsto> sampleData (- 2)] sampleEntry sampleWorld = Inr sampleWorld"
    using checkEntry_skips_nonpositive
      [of "[''abc'' \<mapsto> sampleData (- 2)]" sampleEntry "sampleData (- 2)" "Some workingBot" sampleWorld,
        THEN conjunct1]
    by (simp add: addr)
  have c: "checkEntry (Some workingBot) [''abc'' \<mapsto> sampleData 3] (sampleEntry\<lparr>lastAlertPrice := 0\<rparr>)
     sampleWorld = Inr sampleWorld"
    using checkEntry_skips_nonpositive
      [of "[''abc'' \<mapsto> sampleData 3]" "sampleEntry\<lparr>lastAlertPrice := 0\<rparr>" "sampleData 3"
        "Some workingBot" sampleWorld, THEN conjunct1]
    by (simp add: addr)
  from a b c show ?thesis by (intro conjI)
qed

text \<open>
  C4. The dispatch of an alert never throws: \<open>sendPriceAlert\<close> returns, and so does a
  whole sweep, whatever the bot does. When \<open>sendMessage\<close> rejects for an alert that
  fired, the evaluator logs the error, delivers nothing and still writes the current
  price as the entry's reference price; on a writable store with distinct keys the
  entry then stands in the store with the new reference price.
\<close>

theorem failed_notification_keeps_update:
  shows "(\<exists>w'. sendPriceAlert tgBot entry tokenData percentChange w = Inr w') \<and>
         (\<exists>w'. checkPrices api tgBot w = Inr w') \<and>
         (tokenDataMap (toLowerCase (tokenAddress entry)) = Some tokenData \<and>
          0 < lastAlertPrice entry \<and> 0 < priceUsd tokenData \<and>
          dropThreshold entry \<le> \<bar>percentChangeOf (priceUsd tokenData) (lastAlertPrice entry)\<bar> \<and>
          sendMessage \<lparr>alertChat = chatId entry, alertEntry = entry, alertData = tokenData,
             alertChange = percentChangeOf (priceUsd tokenData) (lastAlertPrice entry)\<rparr> = Inl err \<longrightarrow>
            checkEntry (Some sendMessage) tokenDataMap entry w =
              Inr (w\<lparr>console := console w @
                       [LogDetected (symbol entry)
                          (percentChangeOf (priceUsd tokenData) (lastAlertPrice entry)),
                        ErrSendingAlert (chatId entry)],
                     store := updateLastAlertPrice (tokenAddress entry) (chainId entry)
                       (chatId entry) (priceUsd tokenData) (store w)\<rparr>) \<and>
            (writable (store w) \<and> uniqueKeys (loadWatchlist (store w)) \<and>
             entry \<in> set (loadWatchlist (store w)) \<longrightarrow>
               loadWatchlist (updateLastAlertPrice (tokenAddress entry) (chainId entry)
                   (chatId entry) (priceUsd tokenData) (store w)) =
                 map (\<lambda>e. if entryKey e = entryKey entry
                          then e\<lparr>lastAlertPrice := priceUsd tokenData\<rparr> else e)
                   (loadWatchlist (store w)) \<and>
               entry\<lparr>lastAlertPrice := priceUsd tokenData\<rparr> \<in>
                 set (loadWatchlist (updateLastAlertPrice (tokenAddress entry) (chainId entry)
                   (chatId entry) (priceUsd tokenData) (store w)))))"
proof -
  have total: "\<exists>w'. sendPriceAlert tgBot entry tokenData percentChange w = Inr w'"
    using sendPriceAlert_total [of tgBot entry tokenData percentChange w] by blast
  have stored: "loadWatchlist (updateLastAlertPrice (tokenAddress entry) (chainId entry)
                   (chatId entry) p (store w)) =
                 map (\<lambda>e. if entryKey e = entryKey entry then e\<lparr>lastAlertPrice := p\<rparr> else e)
                   (loadWatchlist (store w)) \<and>
               entry\<lparr>lastAlertPrice := p\<rparr> \<in>
                 set (loadWatchlist (updateLastAlertPrice (tokenAddress entry) (chainId entry)
                   (chatId entry) p (store w)))"
    if "writable (store w)" "uniqueKeys (loadWatchlist (store w))"
      "entry \<in> set (loadWatchlist (store w))" for p
  proof -
    have eq: "loadWatchlist (updateLastAlertPrice (tokenAddress entry) (chainId entry)
                   (chatId entry) p (store w)) =
                 map (\<lambda>e. if entryKey e = entryKey entry then e\<lparr>lastAlertPrice := p\<rparr> else e)
                   (loadWatchlist (store w))"
      using updateLastAlertPrice_unique [OF that(1,2)] by (simp add: sameKey_self)
    have "entry\<lparr>lastAlertPrice := p\<rparr> \<in>
        (\<lambda>e. if entryKey e = entryKey entry then e\<lparr>lastAlertPrice := p\<rparr> else e) ` set (loadWatchlist (store w))"
      using that(3) by (intro image_eqI [of _ _ entry]) simp_all
    with eq show ?thesis by simp
  qed
  note sent = checkEntry_failed_send [of tokenDataMap entry tokenData sendMessage err w]
  note kept = stored [of "priceUsd tokenData"]
  show ?thesis
  proof (intro conjI)
    show "\<exists>w'. sendPriceAlert tgBot entry tokenData percentChange w = Inr w'"
      by (rule total)
    show "\<exists>w'. checkPrices api tgBot w = Inr w'"
      by (rule checkPrices_total)
    show "tokenDataMap (toLowerCase (tokenAddress entry)) = Some tokenData \<and>
          0 < lastAlertPrice entry \<and> 0 < priceUsd tokenData \<and>
          dropThreshold entry \<le> \<bar>percentChangeOf (priceUsd tokenData) (lastAlertPrice entry)\<bar> \<and>
          sendMessage \<lparr>alertChat = chatId entry, alertEntry = entry, alertData = tokenData,
             alertChange = percentChangeOf (priceUsd tokenData) (lastAlertPrice entry)\<rparr> = Inl err \<longrightarrow>
            checkEntry (Some sendMessage) tokenDataMap entry w =
              Inr (w\<lparr>console := console w @
                       [LogDetected (symbol entry)
                          (percentChangeOf (priceUsd tokenData) (lastAlertPrice entry)),
                        ErrSendingAlert (chatId entry)],
                     store := updateLastAlertPrice (tokenAddress entry) (chainId entry)
                       (chatId entry) (priceUsd tokenData) (store w)\<rparr>) \<and>
            (writable (store w) \<and> uniqueKeys (loadWatchlist (store w)) \<and>
             entry \<in> set (loadWatchlist (store w)) \<longrightarrow>
               loadWatchlist (updateLastAlertPrice (tokenAddress entry) (chainId entry)
                   (chatId entry) (priceUsd tokenData) (store w)) =
                 map (\<lambda>e. if entryKey e = entryKey entry
                          then e\<lparr>lastAlertPrice := priceUsd tokenData\<rparr> else e)
                   (loadWatchlist (store w)) \<and>
               entry\<lparr>lastAlertPrice := priceUsd tokenData\<rparr> \<in>
                 set (loadWatchlist (updateLastAlertPrice (tokenAddress entry) (chainId entry)
                   (chatId entry) (priceUsd tokenData) (store w))))"
    proof (intro impI, elim conjE, intro conjI impI)
      assume "tokenDataMap (toLowerCase (tokenAddress entry)) = Some tokenData"
        "0 < lastAlertPrice entry" "0 < priceUsd tokenData"
        "dropThreshold entry \<le> \<bar>percentChangeOf (priceUsd tokenData) (lastAlertPrice entry)\<bar>"
        "sendMessage \<lparr>alertChat = chatId entry, alertEntry = entry, alertData = tokenData,
             alertChange = percentChangeOf (priceUsd tokenData) (lastAlertPrice entry)\<rparr> = Inl err"
      then show "checkEntry (Some sendMessage) tokenDataMap entry w =
              Inr (w\<lparr>console := console w @
                       [LogDetected (symbol entry)
                          (percentChangeOf (priceUsd tokenData) (lastAlertPrice entry)),
                        ErrSendingAlert (chatId entry)],
                     store := updateLastAlertPrice (tokenAddress entry) (chainId entry)
                       (chatId entry) (priceUsd tokenData) (store w)\<rparr>)"
        by (rule sent)
    next
      assume "writable (store w) \<and> uniqueKeys (loadWatchlist (store w)) \<and>
             entry \<in> set (loadWatchlist (store w))"
      then show "loadWatchlist (updateLastAlertPrice (tokenAddress entry) (chainId entry)
                   (chatId entry) (priceUsd tokenData) (store w)) =
                 map (\<lambda>e. if entryKey e = entryKey entry
                          then e\<lparr>lastAlertPrice := priceUsd tokenData\<rparr> else e)
                   (loadWatchlist (store w))"
        using kept by simp
    next
      assume "writable (store w) \<and> uniqueKeys (loadWatchlist (store w)) \<and>
             entry \<in> set (loadWatchlist (store w))"
      then show "entry\<lparr>lastAlertPrice := priceUsd tokenData\<rparr> \<in>
                 set (loadWatchlist (updateLastAlertPrice (tokenAddress entry) (chainId entry)
                   (chatId entry) (priceUsd tokenData) (store w)))"
        using kept by simp
    qed
  qed
qed

theorem failed_notification_keeps_update_witness:
  "checkEntry (Some failingBot) [''abc'' \<mapsto> sampleData (roundDouble (94 / 100))] sampleEntry
       sampleWorld =
     Inr (sampleWorld
           \<lparr>console := [LogDetected ''TOK'' (- (3377699720527875 / 2 ^ 49)),
                        ErrSendingAlert ''42''],
            store := updateLastAlertPrice ''abc'' ''solana'' ''42'' (roundDouble (94 / 100))
                       sampleDisk\<rparr>) \<and>
   loadWatchlist (updateLastAlertPrice ''abc'' ''solana'' ''42'' (roundDouble (94 / 100)) sampleDisk) =
     [sampleEntry\<lparr>lastAlertPrice := roundDouble (94 / 100)\<rparr>]"
proof -
  define p where "p = roundDouble (94 / 100)"
  have v: "percentChangeOf p 1 = - (3377699720527875 / 2 ^ 49)"
    unfolding p_def
    by (simp add: percentChangeOf_def roundDouble_def floorLog2_def roundHalfEven_def Let_def)
  have pos: "0 < p" unfolding p_def by (simp add: roundDouble_sign)
  note inst = failed_notification_keeps_update
    [where entry = sampleEntry and tokenData = "sampleData p" and w = sampleWorld
      and tokenDataMap = "[''abc'' \<mapsto> sampleData p]" and sendMessage = failingBot
      and err = "JsError ''ETELEGRAM''", THEN conjunct2, THEN conjunct2]
  have hyps: "[''abc'' \<mapsto> sampleData p] (toLowerCase (tokenAddress sampleEntry)) = Some (sampleData p) \<and>
      0 < lastAlertPrice sampleEntry \<and> 0 < priceUsd (sampleData p) \<and>
      dropThreshold sampleEntry \<le> \<bar>percentChangeOf (priceUsd (sampleData p)) (lastAlertPrice sampleEntry)\<bar> \<and>
      failingBot \<lparr>alertChat = chatId sampleEntry, alertEntry = sampleEntry, alertData = sampleData p,
         alertChange = percentChangeOf (priceUsd (sampleData p)) (lastAlertPrice sampleEntry)\<rparr> =
        Inl (JsError ''ETELEGRAM'')"
    using v pos by (simp add: sampleEntry_fields toLower_abc failingBot_def)
  have store: "writable (store sampleWorld) \<and> uniqueKeys (loadWatchlist (store sampleWorld)) \<and>
      sampleEntry \<in> set (loadWatchlist (store sampleWorld))"
    by (simp add: sampleWorld_fields uniqueKeys_def)
  from inst [THEN mp, OF hyps] store v show ?thesis
    unfolding p_def [symmetric]
    by (simp add: sampleEntry_fields sampleWorld_fields)
qed

text \<open>
  C5. An add whose key (address and chain compared in lower case, and the chat) is
  already in the store returns \<open>null\<close> and leaves the disk as it was. The store's
  operations (add, remove, the two updates, the add command and a sweep of the
  monitor) keep the keys of the stored entries distinct.
\<close>

theorem addToWatchlist_rejects_duplicate:
  shows "((toLowerCase address, toLowerCase chain, chat) \<in> set (map entryKey (loadWatchlist d)) \<longrightarrow>
            addToWatchlist address chain nm smb price threshold chat now d = (None, d)) \<and>
         (uniqueKeys (loadWatchlist d) \<longrightarrow>
            uniqueKeys (loadWatchlist (snd (addToWatchlist address chain nm smb price threshold chat now d))) \<and>
            uniqueKeys (loadWatchlist (snd (removeFromWatchlist address chain chat d))) \<and>
            uniqueKeys (loadWatchlist (updateLastAlertPrice address chain chat price d)) \<and>
            uniqueKeys (loadWatchlist (snd (updateThreshold address chain chat percent d))) \<and>
            uniqueKeys (loadWatchlist (snd (processAdd api chat chain address percent now d))) \<and>
            (\<forall>w w'. store w = d \<and> checkPrices api tgBot w = Inr w' \<longrightarrow>
               uniqueKeys (loadWatchlist (store w'))))"
proof -
  have dup: "addToWatchlist address chain nm smb price threshold chat now d = (None, d)"
    if "(toLowerCase address, toLowerCase chain, chat) \<in> set (map entryKey (loadWatchlist d))"
    using that by (simp add: addToWatchlist_def Let_def list_ex_sameKey)
  have padd: "uniqueKeys (loadWatchlist (snd (processAdd api chat chain address percent now d)))"
    if "uniqueKeys (loadWatchlist d)"
  proof (cases "getTokenData api chain address")
    case None
    with that show ?thesis by (simp add: processAdd_def)
  next
    case (Some td)
    let ?r = "addToWatchlist address chain (tokenName td) (tokenSymbol td) (priceUsd td)
        (Some percent) chat now d"
    have "snd (processAdd api chat chain address percent now d) = snd ?r"
      using Some by (simp add: processAdd_def split: prod.splits option.splits)
    with uniqueKeys_add [OF that] show ?thesis by simp
  qed
  show ?thesis
    using dup padd
    by (auto simp: uniqueKeys_add uniqueKeys_remove uniqueKeys_updateLastAlertPrice
        uniqueKeys_updateThreshold intro: uniqueKeys_checkPrices)
qed

theorem addToWatchlist_rejects_duplicate_witness:
  "addToWatchlist ''ABC'' ''Solana'' ''Token'' ''TOK'' 2 None ''42'' ''2024-02-02'' sampleDisk =
     (None, sampleDisk) \<and>
   uniqueKeys (loadWatchlist (snd (addToWatchlist ''xyz'' ''Solana'' ''Other'' ''OTH'' 2 None ''42''
     ''2024-02-02'' sampleDisk)))"
proof -
  have load: "loadWatchlist sampleDisk = [sampleEntry]"
    by (simp add: loadWatchlist_def sampleDisk_def)
  have key: "entryKey sampleEntry = (''abc'', ''solana'', ''42'')"
    by (simp add: entryKey_def sampleEntry_def toLowerCase_def lowerChar_def)
  have low: "toLowerCase ''ABC'' = ''abc''" "toLowerCase ''Solana'' = ''solana''"
    by (simp_all add: toLowerCase_def lowerChar_def)
  have "(toLowerCase ''ABC'', toLowerCase ''Solana'', ''42'') \<in> set (map entryKey (loadWatchlist sampleDisk))"
    by (simp add: load key low)
  moreover have "uniqueKeys (loadWatchlist sampleDisk)"
    by (simp add: load uniqueKeys_def)
  ultimately show ?thesis
    using addToWatchlist_rejects_duplicate
      [of "''ABC''" "''Solana''" "''42''" sampleDisk "''Token''" "''TOK''" 2 None "''2024-02-02''"]
      addToWatchlist_rejects_duplicate
      [of "''xyz''" "''Solana''" "''42''" sampleDisk "''Other''" "''OTH''" 2 None "''2024-02-02''"]
    by blast
qed

text \<open>
  C6 says that the add path never creates an entry with a non-positive price. The add
  command stores the fetched price unchecked: when the upstream pair has no parsable
  price, \<open>priceUsd\<close> falls back to \<open>0\<close> and the entry is created with reference price
  and initial price \<open>0\<close>.
\<close>

theorem processAdd_stores_zero_price:
  "processAdd (sampleUpstream None) ''42'' ''solana'' ''abc'' 5 ''2024-01-01T00:00:00.000Z'' emptyDisk =
     ([FetchingTokenData,
       TokenAdded (toTokenData ''solana'' ''abc'' (samplePair None)) 5 ''solana''],
      \<lparr>content = Some [sampleEntry\<lparr>lastAlertPrice := 0, initialPrice := 0\<rparr>], writable = True\<rparr>) \<and>
   \<not> positivePrices (loadWatchlist (snd (processAdd (sampleUpstream None) ''42'' ''solana'' ''abc'' 5
       ''2024-01-01T00:00:00.000Z'' emptyDisk)))"
proof -
  have td: "getTokenData (sampleUpstream None) ''solana'' ''abc'' =
      Some (toTokenData ''solana'' ''abc'' (samplePair None))"
    by (simp add: getTokenData_def sampleUpstream_def pickBest_def)
  have fields: "tokenName (toTokenData ''solana'' ''abc'' (samplePair None)) = ''Token''"
    "tokenSymbol (toTokenData ''solana'' ''abc'' (samplePair None)) = ''TOK''"
    "priceUsd (toTokenData ''solana'' ''abc'' (samplePair None)) = 0"
    by (simp_all add: toTokenData_def samplePair_def orStr_def orNum_def)
  have low: "toLowerCase ''solana'' = ''solana''"
    by (simp add: toLowerCase_def lowerChar_def)
  have add: "addToWatchlist ''abc'' ''solana'' ''Token'' ''TOK'' 0 (Some 5) ''42''
      ''2024-01-01T00:00:00.000Z'' emptyDisk =
      (Some (sampleEntry\<lparr>lastAlertPrice := 0, initialPrice := 0\<rparr>),
       \<lparr>content = Some [sampleEntry\<lparr>lastAlertPrice := 0, initialPrice := 0\<rparr>], writable = True\<rparr>)"
    by (simp add: addToWatchlist_def Let_def loadWatchlist_def emptyDisk_def saveWatchlist_def
        toLower_abc low sampleEntry_def)
  show ?thesis
    by (simp add: processAdd_def td fields add loadWatchlist_def positivePrices_def sampleEntry_def)
qed

text \<open>
  C6, as the code has it. An added entry has the price handed to \<open>addToWatchlist\<close> as
  its reference and its initial price. A store whose prices are all positive keeps them
  positive under an add of a positive price, the add command for a token whose fetched
  price is positive, remove, the threshold update, the write of a positive reference
  price and a sweep of the monitor (which writes fetched prices above zero only); no
  sweep changes an initial price.
\<close>

theorem positive_prices_preserved:
  shows "(\<forall>entry d'. addToWatchlist address chain nm smb price threshold chat now d = (Some entry, d') \<longrightarrow>
            lastAlertPrice entry = price \<and> initialPrice entry = price) \<and>
         (positivePrices (loadWatchlist d) \<longrightarrow>
            (0 < price \<longrightarrow>
               positivePrices (loadWatchlist
                 (snd (addToWatchlist address chain nm smb price threshold chat now d)))) \<and>
            (\<forall>td. getTokenData api chain address = Some td \<and> 0 < priceUsd td \<longrightarrow>
               positivePrices (loadWatchlist (snd (processAdd api chat chain address percent now d)))) \<and>
            positivePrices (loadWatchlist (snd (removeFromWatchlist address chain chat d))) \<and>
            positivePrices (loadWatchlist (snd (updateThreshold address chain chat percent d))) \<and>
            (0 < price \<longrightarrow>
               positivePrices (loadWatchlist (updateLastAlertPrice address chain chat price d))) \<and>
            (\<forall>w w'. store w = d \<and> checkPrices api tgBot w = Inr w' \<longrightarrow>
               positivePrices (loadWatchlist (store w')))) \<and>
         (\<forall>w w'. checkPrices api tgBot w = Inr w' \<longrightarrow>
            map initialPrice (loadWatchlist (store w')) = map initialPrice (loadWatchlist (store w)))"
proof (intro conjI allI impI)
  fix entry d'
  assume "addToWatchlist address chain nm smb price threshold chat now d = (Some entry, d')"
  then show "lastAlertPrice entry = price" "initialPrice entry = price"
    using addToWatchlist_prices by blast+
next
  assume "positivePrices (loadWatchlist d)" "0 < price"
  then show "positivePrices (loadWatchlist
      (snd (addToWatchlist address chain nm smb price threshold chat now d)))"
    by (rule positivePrices_add)
next
  fix td
  assume "positivePrices (loadWatchlist d)" "getTokenData api chain address = Some td \<and> 0 < priceUsd td"
  then show "positivePrices (loadWatchlist (snd (processAdd api chat chain address percent now d)))"
    by (simp add: processAdd_disk positivePrices_add)
next
  assume "positivePrices (loadWatchlist d)"
  then show "positivePrices (loadWatchlist (snd (removeFromWatchlist address chain chat d)))"
    by (rule positivePrices_remove)
next
  assume "positivePrices (loadWatchlist d)"
  then show "positivePrices (loadWatchlist (snd (updateThreshold address chain chat percent d)))"
    by (rule positivePrices_updateThreshold)
next
  assume "positivePrices (loadWatchlist d)" "0 < price"
  then show "positivePrices (loadWatchlist (updateLastAlertPrice address chain chat price d))"
    by (rule positivePrices_updateLastAlertPrice)
next
  fix w w'
  assume "positivePrices (loadWatchlist d)" "store w = d \<and> checkPrices api tgBot w = Inr w'"
  then show "positivePrices (loadWatchlist (store w'))"
    using positivePrices_checkPrices [of w api tgBot w'] by simp
next
  fix w w'
  assume "checkPrices api tgBot w = Inr w'"
  then show "map initialPrice (loadWatchlist (store w')) = map initialPrice (loadWatchlist (store w))"
    by (rule initialPrice_checkPrices)
qed

theorem positive_prices_preserved_witness:
  "positivePrices (loadWatchlist (snd (addToWatchlist ''xyz'' ''solana'' ''Other'' ''OTH'' 2 None ''42''
     ''2024-02-02'' sampleDisk))) \<and>
   positivePrices (loadWatchlist (updateLastAlertPrice ''abc'' ''solana'' ''42'' 2 sampleDisk)) \<and>
   positivePrices (loadWatchlist (snd (processAdd (sampleUpstream (Some 2)) ''43'' ''solana'' ''abc'' 5
     ''2024-02-02'' sampleDisk)))"
proof -
  have pos: "positivePrices (loadWatchlist sampleDisk)"
    by (simp add: sampleWorld_fields positivePrices_def sampleEntry_fields)
  have td: "getTokenData (sampleUpstream (Some 2)) ''solana'' ''abc'' = Some (sampleData 2) \<and>
      0 < priceUsd (sampleData 2)"
    using sampleData_simps [of 2]
    by (simp add: getTokenData_def sampleUpstream_def pickBest_def) (simp add: sampleData_def)
  have two: "(0::real) < 2" by simp
  have a: "positivePrices (loadWatchlist (snd (addToWatchlist ''xyz'' ''solana'' ''Other'' ''OTH'' 2 None
      ''42'' ''2024-02-02'' sampleDisk)))"
    using positive_prices_preserved
      [where d = sampleDisk and price = 2 and chain = "''solana''" and address = "''xyz''"
        and nm = "''Other''" and smb = "''OTH''" and threshold = None and chat = "''42''"
        and now = "''2024-02-02''", THEN conjunct2, THEN conjunct1, THEN mp, OF pos,
        THEN conjunct1, THEN mp, OF two] .
  have b: "positivePrices (loadWatchlist (updateLastAlertPrice ''abc'' ''solana'' ''42'' 2 sampleDisk))"
    using positive_prices_preserved
      [where d = sampleDisk and price = 2 and chain = "''solana''" and address = "''abc''"
        and chat = "''42''", THEN conjunct2, THEN conjunct1, THEN mp, OF pos,
        THEN conjunct2, THEN conjunct2, THEN conjunct2, THEN conjunct2, THEN conjunct1,
        THEN mp, OF two] .
  have c: "positivePrices (loadWatchlist (snd (processAdd (sampleUpstream (Some 2)) ''43'' ''solana''
      ''abc'' 5 ''2024-02-02'' sampleDisk)))"
    using positive_prices_preserved
      [where d = sampleDisk and api = "sampleUpstream (Some 2)" and chain = "''solana''"
        and address = "''abc''" and chat = "''43''" and percent = 5 and now = "''2024-02-02''",
        THEN conjunct2, THEN conjunct1, THEN mp, OF pos,
        THEN conjunct2, THEN conjunct1, THEN spec, THEN mp, OF td] .
  from a b c
  show ?thesis by (intro conjI)
qed

text \<open>
  C7 says that no sweep begins after \<open>stopMonitor\<close>. The monitor is started at time 0
  with an interval of 60 s and stopped after 1 s. \<open>stopMonitor\<close> clears the interval,
  whose handle the module keeps, and the interval never fires; the warm-up timeout,
  whose handle \<open>startMonitor\<close> drops, is still pending after the stop and starts a
  sweep at 5 s.
\<close>

theorem warmup_sweep_fires_after_stop:
  "timers (stopMonitor (advance 1000 (startMonitor (Some workingBot) (Some 60000) idleScheduler))) =
     [\<lparr>timerId = 0, due = 5000, period = None\<rparr>] \<and>
   started (advance 4000 (stopMonitor (advance 1000
     (startMonitor (Some workingBot) (Some 60000) idleScheduler)))) = [5000] \<and>
   started (advance 200000 (stopMonitor (advance 1000
     (startMonitor (Some workingBot) (Some 60000) idleScheduler)))) = [5000]"
proof -
  let ?s1 = "startMonitor (Some workingBot) (Some 60000) idleScheduler"
  have s1: "?s1 = \<lparr>clock = 0,
      timers = [\<lparr>timerId = 0, due = 5000, period = None\<rparr>,
                \<lparr>timerId = 1, due = 60000, period = Some 60000\<rparr>],
      nextId = 2, monitorInterval = Some 1, monitorBot = Some workingBot, started = []\<rparr>"
    by (simp add: startMonitor_def idleScheduler_def setTimeout_def setInterval_def timerDelay_def
        Let_def)
  have s2: "advance 1000 ?s1 = ?s1\<lparr>clock := 1000\<rparr>"
    using advance_idle [of ?s1 1000] by (simp add: s1)
  let ?s3 = "stopMonitor (advance 1000 ?s1)"
  have s3: "?s3 = \<lparr>clock = 1000, timers = [\<lparr>timerId = 0, due = 5000, period = None\<rparr>],
      nextId = 2, monitorInterval = None, monitorBot = Some workingBot, started = []\<rparr>"
    by (simp only: s2) (simp add: s1 stopMonitor_def clearInterval_def)
  have s4: "advance 3999 ?s3 = ?s3\<lparr>clock := 4999\<rparr>"
    using advance_idle [of ?s3 3999] by (simp add: s3)
  have "advance 4000 ?s3 = tick (advance 3999 ?s3)"
    using advance_Suc_end [of 3999 ?s3] by simp
  then have s5: "advance 4000 ?s3 = \<lparr>clock = 5000, timers = [], nextId = 2,
      monitorInterval = None, monitorBot = Some workingBot, started = [5000]\<rparr>"
    by (simp only: s4) (simp add: s3 tick_def Let_def fire_def)
  have "advance 200000 ?s3 = advance 196000 (advance 4000 ?s3)"
    using advance_add [of 4000 196000 ?s3] by simp
  also have "\<dots> = (advance 4000 ?s3)\<lparr>clock := 201000\<rparr>"
    using advance_idle [of "advance 4000 ?s3" 196000] by (simp only: s5) simp
  finally have "started (advance 200000 ?s3) = [5000]"
    by (simp only: s5) simp
  with s3 s5 show ?thesis by simp
qed

text \<open>
  C8 says that the keys of the result are tied back to the input addresses. The code
  keys the result by the base-token address of every pair the upstream returns and
  never compares it with the addresses of the batch: when the upstream answers a
  request for \<open>ABC\<close> with a pair of the token \<open>XYZ\<close>, the result holds the key \<open>xyz\<close>,
  which is no input address, and nothing else.
\<close>

theorem getMultipleTokensData_key_not_asked:
  "fst (getMultipleTokensData strayUpstream ''solana'' [''ABC'']) ''xyz'' =
     Some (toTokenData ''solana'' ''xyz'' strayPair) \<and>
   ''xyz'' \<notin> toLowerCase ` set [''ABC''] \<and>
   dom (fst (getMultipleTokensData strayUpstream ''solana'' [''ABC''])) = {''xyz''} \<and>
   snd (getMultipleTokensData strayUpstream ''solana'' [''ABC'']) = [Get ''solana'' [''ABC'']]"
proof -
  have res: "fst (getMultipleTokensData strayUpstream ''solana'' [''ABC'']) =
      [''xyz'' \<mapsto> toTokenData ''solana'' ''xyz'' strayPair]"
    by (simp add: getMultipleTokensData_single batchResults_def strayUpstream_def pairsByToken_def
        strayPair_key setBest_def pickBest_def)
  show ?thesis unfolding res by (simp add: getMultipleTokensData_single toLower_ABC)
qed

text \<open>
  C8, as the code has it. For every chain and every address list the batched fetch asks
  the upstream for the successive batches of at most 30 addresses that make up the list,
  in order, with a pause of 250 ms between two successive calls and none after the
  last. Every key of the result is a lower-case address and is bound to data built from
  a returned pair whose base-token address is that key in lower case, so a lookup by a
  lower-cased input address finds that token's data; a key is absent exactly when no
  answer holds a pair for it (the values are token data, never \<open>null\<close>). Provided the
  upstream answers with pairs of the addresses asked only, every key is a lower-cased
  input address.
\<close>

theorem getMultipleTokensData_batches_of_thirty:
  shows "snd (getMultipleTokensData api chain tokenAddresses) =
           pacedRequests chain (batchesOf 30 tokenAddresses) \<and>
         concat (batchesOf 30 tokenAddresses) = tokenAddresses \<and>
         (\<forall>batch\<in>set (batchesOf 30 tokenAddresses). 0 < length batch \<and> length batch \<le> 30) \<and>
         (\<forall>k tokenData. fst (getMultipleTokensData api chain tokenAddresses) k = Some tokenData \<longrightarrow>
            toLowerCase k = k \<and>
            (\<exists>batch\<in>set (batchesOf 30 tokenAddresses). \<exists>pairs p.
               api chain batch = Some pairs \<and> p \<in> set pairs \<and> pairKey p = Some k \<and>
               tokenData = toTokenData chain k p)) \<and>
         (\<forall>k. fst (getMultipleTokensData api chain tokenAddresses) k = None \<longleftrightarrow>
            (\<forall>batch\<in>set (batchesOf 30 tokenAddresses). \<forall>pairs. api chain batch = Some pairs \<longrightarrow>
               (\<forall>p\<in>set pairs. pairKey p \<noteq> Some k))) \<and>
         ((\<forall>batch\<in>set (batchesOf 30 tokenAddresses). \<forall>pairs. api chain batch = Some pairs \<longrightarrow>
             (\<forall>p\<in>set pairs. \<forall>k. pairKey p = Some k \<longrightarrow> k \<in> toLowerCase ` set batch)) \<longrightarrow>
          dom (fst (getMultipleTokensData api chain tokenAddresses)) \<subseteq>
            toLowerCase ` set tokenAddresses)"
proof -
  let ?bs = "batchesOf 30 tokenAddresses"
  let ?res = "fst (getMultipleTokensData api chain tokenAddresses)"
  have res: "?res = foldl (\<lambda>results batch. batchResults api chain batch results) Map.empty ?bs"
    by (simp add: getMultipleTokensData_batches batchSize_def)
  have trace: "snd (getMultipleTokensData api chain tokenAddresses) = pacedRequests chain ?bs"
    by (simp add: getMultipleTokensData_batches batchSize_def)
  have cat: "concat ?bs = tokenAddresses"
    by (simp add: batchesOf_concat)
  have sizes: "\<forall>batch\<in>set ?bs. 0 < length batch \<and> length batch \<le> 30"
    using batchesOf_sizes by blast
  have some: "toLowerCase k = k \<and>
      (\<exists>batch\<in>set ?bs. \<exists>pairs p. api chain batch = Some pairs \<and> p \<in> set pairs \<and>
         pairKey p = Some k \<and> tokenData = toTokenData chain k p)"
    if "?res k = Some tokenData" for k tokenData
  proof -
    from that results_Some [of api chain Map.empty ?bs k tokenData]
    have ex: "\<exists>batch\<in>set ?bs. \<exists>pairs p. api chain batch = Some pairs \<and> p \<in> set pairs \<and>
         pairKey p = Some k \<and> tokenData = toTokenData chain k p"
      unfolding res by simp
    then have "toLowerCase k = k" using pairKey_lower by blast
    with ex show ?thesis by blast
  qed
  have none: "?res k = None \<longleftrightarrow>
      (\<forall>batch\<in>set ?bs. \<forall>pairs. api chain batch = Some pairs \<longrightarrow>
         (\<forall>p\<in>set pairs. pairKey p \<noteq> Some k))" for k
    unfolding res results_None by simp
  have keys: "dom ?res \<subseteq> toLowerCase ` set tokenAddresses"
    if up: "\<forall>batch\<in>set ?bs. \<forall>pairs. api chain batch = Some pairs \<longrightarrow>
             (\<forall>p\<in>set pairs. \<forall>k. pairKey p = Some k \<longrightarrow> k \<in> toLowerCase ` set batch)"
  proof
    fix k assume "k \<in> dom ?res"
    then obtain tokenData where "?res k = Some tokenData" by auto
    from some [OF this] obtain batch pairs p where
      b: "batch \<in> set ?bs" "api chain batch = Some pairs" "p \<in> set pairs" "pairKey p = Some k"
      by blast
    with up have "k \<in> toLowerCase ` set batch" by blast
    moreover from b(1) have "set batch \<subseteq> set (concat ?bs)" by auto
    ultimately show "k \<in> toLowerCase ` set tokenAddresses" unfolding cat by blast
  qed
  from trace cat sizes some none keys show ?thesis by blast
qed

theorem getMultipleTokensData_batches_of_thirty_witness:
  "snd (getMultipleTokensData (sampleUpstream (Some 2)) ''solana'' (replicate 31 ''ABC'')) =
     [Get ''solana'' (replicate 30 ''ABC''), Sleep 250, Get ''solana'' [''ABC'']] \<and>
   dom (fst (getMultipleTokensData (sampleUpstream (Some 2)) ''solana'' (replicate 31 ''ABC''))) \<subseteq>
     {''abc''}"
proof -
  have bs: "batchesOf 30 (replicate 31 ''ABC'') = [replicate 30 ''ABC'', [''ABC'']]"
    by (subst batchesOf.simps, simp, subst batchesOf.simps, simp)
  have up: "\<forall>batch\<in>set (batchesOf 30 (replicate 31 ''ABC'')).
      \<forall>pairs. sampleUpstream (Some 2) ''solana'' batch = Some pairs \<longrightarrow>
        (\<forall>p\<in>set pairs. \<forall>k. pairKey p = Some k \<longrightarrow> k \<in> toLowerCase ` set batch)"
    by (auto simp: bs sampleUpstream_def samplePair_key toLower_ABC)
  note inst = getMultipleTokensData_batches_of_thirty
    [where api = "sampleUpstream (Some 2)" and chain = "''solana''"
      and tokenAddresses = "replicate 31 ''ABC''"]
  from inst [THEN conjunct1]
  have first: "snd (getMultipleTokensData (sampleUpstream (Some 2)) ''solana'' (replicate 31 ''ABC'')) =
     [Get ''solana'' (replicate 30 ''ABC''), Sleep 250, Get ''solana'' [''ABC'']]"
    by (simp add: bs)
  from inst [THEN conjunct2, THEN conjunct2, THEN conjunct2, THEN conjunct2, THEN conjunct2,
      THEN mp, OF up]
  have "dom (fst (getMultipleTokensData (sampleUpstream (Some 2)) ''solana'' (replicate 31 ''ABC''))) \<subseteq>
     {''abc''}"
    by (simp add: toLower_ABC)
  with first show ?thesis by simp
qed

text \<open>
  C9 says that the normal range is printed with 2 to 4 fixed decimals and only sub-cent
  values with stripped ones. The stripping tier reaches up to 1: a half is printed
  with one decimal and a sixty-fourth with six.
\<close>

theorem formatPrice_below_one_not_fixed:
  "formatPrice (1 / 2) = ''$0.5'' \<and> decimals (formatPrice (1 / 2)) = 1 \<and>
   formatPrice (1 / 64) = ''$0.015625'' \<and> decimals (formatPrice (1 / 64)) = 6"
proof -
  have "formatPrice (1 / 2) = ''$'' @ stripZeros (toFixed 6 (1 / 2))"
    by (rule formatPrice_strip6 [OF small_doubles(1)]) simp
  then have a: "formatPrice (1 / 2) = ''$0.5''"
    by (simp add: toFixed_half stripZeros_def Let_def)
  have "formatPrice (1 / 64) = ''$'' @ stripZeros (toFixed 6 (1 / 64))"
    by (rule formatPrice_strip6 [OF small_doubles(2)]) simp
  then have b: "formatPrice (1 / 64) = ''$0.015625''"
    by (simp add: toFixed_64th stripZeros_def Let_def)
  show ?thesis
    by (simp only: a b) (simp add: decimals_def)
qed

text \<open>
  C9, as the code has it. Both formatters are functions of their argument alone.
  \<open>formatPrice\<close> prints \<open>$0.00\<close> for 0; scientific notation with four fraction digits
  for every other price below the double \<open>1e-8\<close>; decimals with the trailing zeros
  stripped from \<open>1e-8\<close> up to 1 (rounded to 10 places below the double \<open>0.0001\<close>, to 6
  places from there on); exactly four decimals from 1 up to 1000; and two decimals with
  the integer digits grouped in threes from 1000 on. \<open>formatMarketCap\<close> prints \<open>N/A\<close> for
  an absent or zero value; from \<open>10^3\<close>, \<open>10^6\<close>, \<open>10^9\<close> and \<open>10^12\<close> on it divides by that
  power, rounds the quotient to a double and prints it with two decimals and the suffix
  K, M, B or T; below 1000 it prints two decimals without suffix. (The T tier is stated
  below \<open>10^32\<close> and the tier without suffix above \<open>-10^21\<close>, where \<open>toFixed\<close> prints
  decimals.) The boundary values land on these tiers: 0, the doubles \<open>1e-8\<close> and
  \<open>0.0001\<close>, 1, 1000 and the powers \<open>10^6\<close>, \<open>10^9\<close> and \<open>10^12\<close>. The rounding shows at
  \<open>2^-20\<close> (ten places), at \<open>1/128\<close> (six places, a tie that goes up) and at a market cap
  of 1005, whose quotient is the double below 1.005 and prints as \<open>$1.00K\<close>.
\<close>

theorem formatters_tiers:
  shows "formatPrice 0 = ''$0.00'' \<and>
         (price \<noteq> 0 \<and> price < roundDouble (1 / 10 ^ 8) \<longrightarrow>
            formatPrice price = ''$'' @ toExponential 4 price) \<and>
         (roundDouble (1 / 10 ^ 8) \<le> price \<and> price < roundDouble (1 / 10 ^ 4) \<longrightarrow>
            formatPrice price = ''$'' @ stripZeros (toFixed 10 price)) \<and>
         (roundDouble (1 / 10 ^ 4) \<le> price \<and> price < 1 \<longrightarrow>
            formatPrice price = ''$'' @ stripZeros (toFixed 6 price)) \<and>
         (1 \<le> price \<and> price < 1000 \<longrightarrow>
            formatPrice price = ''$'' @ toFixed 4 price \<and> decimals (formatPrice price) = 4) \<and>
         (1000 \<le> price \<longrightarrow>
            formatPrice price = ''$'' @ toLocaleString2 price \<and> decimals (formatPrice price) = 2) \<and>
         formatPrice (roundDouble (1 / 10 ^ 9)) = ''$1.0000e-9'' \<and>
         formatPrice (roundDouble (1 / 10 ^ 8)) = ''$0.00000001'' \<and>
         formatPrice (1 / 2 ^ 20) = ''$0.0000009537'' \<and>
         formatPrice (roundDouble (1 / 10 ^ 4)) = ''$0.0001'' \<and>
         formatPrice (1 / 128) = ''$0.007813'' \<and>
         formatPrice 1 = ''$1.0000'' \<and>
         formatPrice 1000 = ''$1,000.00'' \<and>
         formatMarketCap None = ''N/A'' \<and> formatMarketCap (Some 0) = ''N/A'' \<and>
         (10 ^ 12 \<le> cap \<and> cap < 10 ^ 32 \<longrightarrow>
            formatMarketCap (Some cap) = ''$'' @ toFixed 2 (roundDouble (cap / 10 ^ 12)) @ ''T'' \<and>
            roundDouble (cap / 10 ^ 12) < 10 ^ 21) \<and>
         (10 ^ 9 \<le> cap \<and> cap < 10 ^ 12 \<longrightarrow>
            formatMarketCap (Some cap) = ''$'' @ toFixed 2 (roundDouble (cap / 10 ^ 9)) @ ''B'') \<and>
         (10 ^ 6 \<le> cap \<and> cap < 10 ^ 9 \<longrightarrow>
            formatMarketCap (Some cap) = ''$'' @ toFixed 2 (roundDouble (cap / 10 ^ 6)) @ ''M'') \<and>
         (10 ^ 3 \<le> cap \<and> cap < 10 ^ 6 \<longrightarrow>
            formatMarketCap (Some cap) = ''$'' @ toFixed 2 (roundDouble (cap / 10 ^ 3)) @ ''K'') \<and>
         (cap \<noteq> 0 \<and> - (10 ^ 21) < cap \<and> cap < 10 ^ 3 \<longrightarrow>
            formatMarketCap (Some cap) = ''$'' @ toFixed 2 cap) \<and>
         formatMarketCap (Some 1000) = ''$1.00K'' \<and>
         formatMarketCap (Some 1005) = ''$1.00K'' \<and>
         formatMarketCap (Some (10 ^ 6)) = ''$1.00M'' \<and>
         formatMarketCap (Some (10 ^ 9)) = ''$1.00B'' \<and>
         formatMarketCap (Some (10 ^ 12)) = ''$1.00T''"
proof -
  note ord = double_thresholds_order
  have p0: "formatPrice 0 = ''$0.00''" by (simp add: formatPrice_def)
  have p1: "price \<noteq> 0 \<and> price < roundDouble (1 / 10 ^ 8) \<longrightarrow>
      formatPrice price = ''$'' @ toExponential 4 price"
    using formatPrice_exponential by blast
  have p2: "roundDouble (1 / 10 ^ 8) \<le> price \<and> price < roundDouble (1 / 10 ^ 4) \<longrightarrow>
      formatPrice price = ''$'' @ stripZeros (toFixed 10 price)"
    using formatPrice_strip10 by blast
  have p3: "roundDouble (1 / 10 ^ 4) \<le> price \<and> price < 1 \<longrightarrow>
      formatPrice price = ''$'' @ stripZeros (toFixed 6 price)"
    using formatPrice_strip6 by blast
  have p4: "1 \<le> price \<and> price < 1000 \<longrightarrow>
      formatPrice price = ''$'' @ toFixed 4 price \<and> decimals (formatPrice price) = 4"
  proof (intro impI, elim conjE)
    assume "1 \<le> price" "price < 1000"
    then have "formatPrice price = ''$'' @ toFixed 4 price" by (rule formatPrice_fixed4)
    then show "formatPrice price = ''$'' @ toFixed 4 price \<and> decimals (formatPrice price) = 4"
      using decimals_toFixed [of 4 "''$''" price] by simp
  qed
  have p5: "1000 \<le> price \<longrightarrow>
      formatPrice price = ''$'' @ toLocaleString2 price \<and> decimals (formatPrice price) = 2"
  proof
    assume "1000 \<le> price"
    then have "formatPrice price = ''$'' @ toLocaleString2 price" by (rule formatPrice_grouped)
    then show "formatPrice price = ''$'' @ toLocaleString2 price \<and> decimals (formatPrice price) = 2"
      using decimals_toLocaleString2 [of "''$''" price] by simp
  qed
  have i1: "formatPrice (roundDouble (1 / 10 ^ 9)) =
      ''$'' @ toExponential 4 (roundDouble (1 / 10 ^ 9))"
    using ord(5,4) by (rule formatPrice_exponential)
  have fl: "floorLog10 (4835703278458517 / 4835703278458516698824704) = - 9"
    by (simp add: floorLog10_def Let_def digitsOf_small digitsOf_large)
  have e1: "toExponential 4 (4835703278458517 / 2 ^ 82) = ''1.0000e-9''"
    by (simp add: toExponential_def fl Let_def signOf_def digitsOf_small digitsOf_large)
  have q1: "formatPrice (roundDouble (1 / 10 ^ 9)) = ''$1.0000e-9''"
    unfolding i1 unfolding double_thresholds e1 by simp
  have i2: "formatPrice (roundDouble (1 / 10 ^ 8)) =
      ''$'' @ stripZeros (toFixed 10 (roundDouble (1 / 10 ^ 8)))"
    using ord(2) by (intro formatPrice_strip10) simp_all
  have f2: "toFixed 10 (3022314549036573 / 2 ^ 78) = ''0.0000000100''"
    by (simp add: toFixed_def Let_def signOf_def digitsOf_small)
  have q2: "formatPrice (roundDouble (1 / 10 ^ 8)) = ''$0.00000001''"
    unfolding i2 unfolding double_thresholds f2 by (simp add: stripZeros_def Let_def)
  have i3: "formatPrice (1 / 2 ^ 20) = ''$'' @ stripZeros (toFixed 10 (1 / 2 ^ 20))"
    using small_doubles(4,5) by (rule formatPrice_strip10)
  have f3: "toFixed 10 (1 / 2 ^ 20) = ''0.0000009537''"
    by (simp add: toFixed_def Let_def signOf_def digitsOf_small)
  have q3: "formatPrice (1 / 2 ^ 20) = ''$0.0000009537''"
    unfolding i3 f3 by (simp add: stripZeros_def Let_def)
  have i4: "formatPrice (roundDouble (1 / 10 ^ 4)) =
      ''$'' @ stripZeros (toFixed 6 (roundDouble (1 / 10 ^ 4)))"
    using ord(3) by (intro formatPrice_strip6) simp_all
  have f4: "toFixed 6 (7378697629483821 / 2 ^ 66) = ''0.000100''"
    by (simp add: toFixed_def Let_def signOf_def digitsOf_small)
  have q4: "formatPrice (roundDouble (1 / 10 ^ 4)) = ''$0.0001''"
    unfolding i4 unfolding double_thresholds f4 by (simp add: stripZeros_def Let_def)
  have i5: "formatPrice (1 / 128) = ''$'' @ stripZeros (toFixed 6 (1 / 128))"
    by (rule formatPrice_strip6 [OF small_doubles(3)]) simp
  have f5: "toFixed 6 (1 / 128) = ''0.007813''"
    by (simp add: toFixed_def Let_def signOf_def digitsOf_small)
  have q5: "formatPrice (1 / 128) = ''$0.007813''"
    unfolding i5 f5 by (simp add: stripZeros_def Let_def)
  have q6: "formatPrice 1 = ''$1.0000''"
    using formatPrice_fixed4 [of 1] by (simp add: toFixed_one)
  have q7: "formatPrice 1000 = ''$1,000.00''"
    using formatPrice_grouped [of 1000]
    by (simp add: toLocaleString2_def Let_def signOf_def digitsOf_small
        digitsOf_large groupThousands_def)
  have m0: "formatMarketCap None = ''N/A''" "formatMarketCap (Some 0) = ''N/A''"
    by (simp_all add: formatMarketCap_def)
  have m1: "10 ^ 12 \<le> cap \<and> cap < 10 ^ 32 \<longrightarrow>
      formatMarketCap (Some cap) = ''$'' @ toFixed 2 (roundDouble (cap / 10 ^ 12)) @ ''T'' \<and>
      roundDouble (cap / 10 ^ 12) < 10 ^ 21"
  proof (intro impI, elim conjE, intro conjI)
    assume c: "10 ^ 12 \<le> cap" "cap < 10 ^ 32"
    from c(1) show "formatMarketCap (Some cap) =
        ''$'' @ toFixed 2 (roundDouble (cap / 10 ^ 12)) @ ''T''"
      by (rule formatMarketCap_tiers)
    from c have "0 \<le> cap / 10 ^ 12" "cap / 10 ^ 12 < 10 ^ 20" by simp_all
    then show "roundDouble (cap / 10 ^ 12) < 10 ^ 21" by (rule quotient_below_limit)
  qed
  have m2: "10 ^ 9 \<le> cap \<and> cap < 10 ^ 12 \<longrightarrow>
      formatMarketCap (Some cap) = ''$'' @ toFixed 2 (roundDouble (cap / 10 ^ 9)) @ ''B''"
    using formatMarketCap_tiers(2) by blast
  have m3: "10 ^ 6 \<le> cap \<and> cap < 10 ^ 9 \<longrightarrow>
      formatMarketCap (Some cap) = ''$'' @ toFixed 2 (roundDouble (cap / 10 ^ 6)) @ ''M''"
    using formatMarketCap_tiers(3) by blast
  have m4: "10 ^ 3 \<le> cap \<and> cap < 10 ^ 6 \<longrightarrow>
      formatMarketCap (Some cap) = ''$'' @ toFixed 2 (roundDouble (cap / 10 ^ 3)) @ ''K''"
    using formatMarketCap_tiers(4) by blast
  have m5: "cap \<noteq> 0 \<and> - (10 ^ 21) < cap \<and> cap < 10 ^ 3 \<longrightarrow>
      formatMarketCap (Some cap) = ''$'' @ toFixed 2 cap"
    using formatMarketCap_tiers(5) by blast
  have n1: "formatMarketCap (Some 1000) = ''$1.00K''"
    using formatMarketCap_tiers(4) [of 1000] by (simp add: toFixed_one)
  have r2: "roundDouble (1005 / 10 ^ 3) = 1131529406376837 / 2 ^ 50"
    by (simp add: roundDouble_def floorLog2_def roundHalfEven_def Let_def)
  have f2': "toFixed 2 (1131529406376837 / 2 ^ 50) = ''1.00''"
    by (simp add: toFixed_def Let_def signOf_def digitsOf_small)
  have "formatMarketCap (Some 1005) = ''$'' @ toFixed 2 (roundDouble (1005 / 10 ^ 3)) @ ''K''"
    by (rule formatMarketCap_tiers(4)) simp_all
  then have n2: "formatMarketCap (Some 1005) = ''$1.00K''"
    unfolding r2 f2' by simp
  have n3: "formatMarketCap (Some (10 ^ 6)) = ''$1.00M''"
    using formatMarketCap_tiers(3) [of "10 ^ 6"] by (simp add: toFixed_one)
  have n4: "formatMarketCap (Some (10 ^ 9)) = ''$1.00B''"
    using formatMarketCap_tiers(2) [of "10 ^ 9"] by (simp add: toFixed_one)
  have n5: "formatMarketCap (Some (10 ^ 12)) = ''$1.00T''"
    using formatMarketCap_tiers(1) [of "10 ^ 12"] by (simp add: toFixed_one)
  show ?thesis
    by (intro conjI p0 p1 p2 p3 p4 p5 q1 q2 q3 q4 q5 q6 q7 m0 m1 m2 m3 m4 m5 n1 n2 n3 n4 n5)
qed

theorem formatters_tiers_witness:
  "formatPrice 2 = ''$2.0000'' \<and> decimals (formatPrice 2) = 4 \<and>
   formatPrice (1 / 2) = ''$0.5'' \<and>
   formatPrice (- 5) = ''$-5.0000e+0'' \<and>
   formatPrice (2469 / 2) = ''$1,234.50'' \<and>
   formatMarketCap (Some 1500) = ''$1.50K'' \<and>
   formatMarketCap (Some (3 * 10 ^ 12)) = ''$3.00T'' \<and>
   formatMarketCap (Some (1999 / 2)) = ''$999.50''"
proof -
  have ha: "(1::real) \<le> 2 \<and> (2::real) < 1000" by simp
  have a: "formatPrice 2 = ''$'' @ toFixed 4 2 \<and> decimals (formatPrice 2) = 4"
    using formatters_tiers [where price = 2, THEN conjunct2, THEN conjunct2, THEN conjunct2, THEN conjunct2,
        THEN conjunct1, THEN mp, OF ha] .
  have hb: "roundDouble (1 / 10 ^ 4) \<le> 1 / 2 \<and> (1 / 2 :: real) < 1"
    using small_doubles(1) by simp
  have b: "formatPrice (1 / 2) = ''$'' @ stripZeros (toFixed 6 (1 / 2))"
    using formatters_tiers [where price = "1 / 2", THEN conjunct2, THEN conjunct2, THEN conjunct2,
        THEN conjunct1, THEN mp, OF hb] .
  have hc: "(- 5 :: real) \<noteq> 0 \<and> - 5 < roundDouble (1 / 10 ^ 8)"
    using double_thresholds_order(1) by simp
  have c: "formatPrice (- 5) = ''$'' @ toExponential 4 (- 5)"
    using formatters_tiers [where price = "- 5", THEN conjunct2, THEN conjunct1, THEN mp, OF hc] .
  have hd: "(1000 :: real) \<le> 2469 / 2" by simp
  have d: "formatPrice (2469 / 2) = ''$'' @ toLocaleString2 (2469 / 2)"
    using formatters_tiers [where price = "2469 / 2", THEN conjunct2, THEN conjunct2, THEN conjunct2, THEN conjunct2, THEN conjunct2,
        THEN conjunct1, THEN mp, OF hd, THEN conjunct1] .
  have he: "(10 ^ 3 :: real) \<le> 1500 \<and> (1500 :: real) < 10 ^ 6" by simp
  have e: "formatMarketCap (Some 1500) = ''$'' @ toFixed 2 (roundDouble (1500 / 10 ^ 3)) @ ''K''"
    using formatters_tiers [where cap = 1500, THEN conjunct2, THEN conjunct2, THEN conjunct2, THEN conjunct2, THEN conjunct2, THEN conjunct2, THEN conjunct2, THEN conjunct2, THEN conjunct2, THEN conjunct2, THEN conjunct2, THEN conjunct2, THEN conjunct2, THEN conjunct2, THEN conjunct2, THEN conjunct2, THEN conjunct2, THEN conjunct2,
        THEN conjunct1, THEN mp, OF he] .
  have hf: "(10 ^ 12 :: real) \<le> 3 * 10 ^ 12 \<and> (3 * 10 ^ 12 :: real) < 10 ^ 32" by simp
  have f: "formatMarketCap (Some (3 * 10 ^ 12)) =
      ''$'' @ toFixed 2 (roundDouble (3 * 10 ^ 12 / 10 ^ 12)) @ ''T''"
    using formatters_tiers [where cap = "3 * 10 ^ 12", THEN conjunct2, THEN conjunct2, THEN conjunct2, THEN conjunct2, THEN conjunct2, THEN conjunct2, THEN conjunct2, THEN conjunct2, THEN conjunct2, THEN conjunct2, THEN conjunct2, THEN conjunct2, THEN conjunct2, THEN conjunct2, THEN conjunct2,
        THEN conjunct1, THEN mp, OF hf, THEN conjunct1] .
  have hg: "(1999 / 2 :: real) \<noteq> 0 \<and> - (10 ^ 21) < (1999 / 2 :: real) \<and>
      (1999 / 2 :: real) < 10 ^ 3" by simp
  have g: "formatMarketCap (Some (1999 / 2)) = ''$'' @ toFixed 2 (1999 / 2)"
    using formatters_tiers [where cap = "1999 / 2", THEN conjunct2, THEN conjunct2, THEN conjunct2, THEN conjunct2, THEN conjunct2, THEN conjunct2, THEN conjunct2, THEN conjunct2, THEN conjunct2, THEN conjunct2, THEN conjunct2, THEN conjunct2, THEN conjunct2, THEN conjunct2, THEN conjunct2, THEN conjunct2, THEN conjunct2, THEN conjunct2, THEN conjunct2,
        THEN conjunct1, THEN mp, OF hg] .
  have a': "toFixed 4 2 = ''2.0000''"
    by (simp add: toFixed_def Let_def signOf_def digitsOf_small)
  have b': "stripZeros (toFixed 6 (1 / 2)) = ''0.5''"
    by (simp add: toFixed_half stripZeros_def Let_def)
  have fl: "floorLog10 5 = 0"
    by (simp add: floorLog10_def digitsOf_small)
  have c': "toExponential 4 (- 5) = ''-5.0000e+0''"
    by (simp add: toExponential_def fl Let_def signOf_def digitsOf_small digitsOf_large)
  have d': "toLocaleString2 (2469 / 2) = ''1,234.50''"
    by (simp add: toLocaleString2_def Let_def signOf_def digitsOf_small digitsOf_large
        groupThousands_def)
  have e': "toFixed 2 (roundDouble (1500 / 10 ^ 3)) = ''1.50''"
    by (simp add: roundDouble_def floorLog2_def roundHalfEven_def toFixed_def Let_def signOf_def
        digitsOf_small)
  have f': "toFixed 2 (roundDouble (3 * 10 ^ 12 / 10 ^ 12)) = ''3.00''"
    by (simp add: roundDouble_def floorLog2_def roundHalfEven_def toFixed_def Let_def signOf_def
        digitsOf_small)
  have g': "toFixed 2 (1999 / 2) = ''999.50''"
    by (simp add: toFixed_def Let_def signOf_def digitsOf_small digitsOf_large)
  from a have a1: "formatPrice 2 = ''$2.0000''" unfolding a' by simp
  from a have a2: "decimals (formatPrice 2) = 4" by (rule conjunct2)
  from b have b1: "formatPrice (1 / 2) = ''$0.5''" unfolding b' by simp
  from c have c1: "formatPrice (- 5) = ''$-5.0000e+0''" unfolding c' by simp
  from d have d1: "formatPrice (2469 / 2) = ''$1,234.50''" unfolding d' by simp
  from e have e1: "formatMarketCap (Some 1500) = ''$1.50K''" unfolding e' by simp
  from f have f1: "formatMarketCap (Some (3 * 10 ^ 12)) = ''$3.00T''" unfolding f' by simp
  from g have g1: "formatMarketCap (Some (1999 / 2)) = ''$999.50''" unfolding g' by simp
  from a1 a2 b1 c1 d1 e1 f1 g1 show ?thesis by (intro conjI)
qed

text \<open>
  C10. Writing a reference price touches one entry at most: the list keeps its length,
  every entry whose key does not match (in particular every entry of another chat, also
  for the same token on the same chain) is left as it was, an entry that changes
  differs in \<open>lastAlertPrice\<close> only, and a key that matches no entry leaves the disk
  unchanged. The same holds for the write an alert makes: evaluating an entry leaves
  the entries of all other chats as they were.
\<close>

theorem updateLastAlertPrice_touches_one_entry:
  fixes d :: disk
  defines "before \<equiv> loadWatchlist d"
  shows
    "length (loadWatchlist (updateLastAlertPrice address chain chat newPrice d)) = length before \<and>
     (\<forall>i<length before.
        (\<not> sameKey address chain chat (before ! i) \<longrightarrow>
           loadWatchlist (updateLastAlertPrice address chain chat newPrice d) ! i = before ! i) \<and>
        (chatId (before ! i) \<noteq> chat \<longrightarrow>
           loadWatchlist (updateLastAlertPrice address chain chat newPrice d) ! i = before ! i) \<and>
        (loadWatchlist (updateLastAlertPrice address chain chat newPrice d) ! i = before ! i \<or>
         loadWatchlist (updateLastAlertPrice address chain chat newPrice d) ! i =
           (before ! i)\<lparr>lastAlertPrice := newPrice\<rparr>)) \<and>
     (\<not> list_ex (sameKey address chain chat) before \<longrightarrow>
        updateLastAlertPrice address chain chat newPrice d = d) \<and>
     (\<forall>w'. checkEntry tgBot tokenDataMap entry w = Inr w' \<longrightarrow>
        length (loadWatchlist (store w')) = length (loadWatchlist (store w)) \<and>
        (\<forall>i<length (loadWatchlist (store w)).
           chatId (loadWatchlist (store w) ! i) \<noteq> chatId entry \<longrightarrow>
           loadWatchlist (store w') ! i = loadWatchlist (store w) ! i))"
proof -
  have sweep: "length (loadWatchlist (store w')) = length (loadWatchlist (store w)) \<and>
        (\<forall>i<length (loadWatchlist (store w)).
           chatId (loadWatchlist (store w) ! i) \<noteq> chatId entry \<longrightarrow>
           loadWatchlist (store w') ! i = loadWatchlist (store w) ! i)"
    if "checkEntry tgBot tokenDataMap entry w = Inr w'" for w'
    using checkEntry_store [OF that]
    by (auto simp: updateLastAlertPrice_frame(1) updateLastAlertPrice_other_chat)
  show ?thesis
    unfolding before_def
    using updateLastAlertPrice_frame(3) [of _ d address chain chat newPrice] sweep
    by (auto simp: updateLastAlertPrice_frame(1) updateLastAlertPrice_frame(2)
        updateLastAlertPrice_frame(4) updateLastAlertPrice_other_chat)
qed

theorem updateLastAlertPrice_touches_one_entry_witness:
  "loadWatchlist (updateLastAlertPrice ''ABC'' ''solana'' ''42'' (15 / 16) twoChatDisk) ! 1 =
     sampleEntry\<lparr>chatId := ''43''\<rparr> \<and>
   updateLastAlertPrice ''ABC'' ''solana'' ''99'' (15 / 16) twoChatDisk = twoChatDisk"
proof -
  have load: "loadWatchlist twoChatDisk = [sampleEntry, sampleEntry\<lparr>chatId := ''43''\<rparr>]"
    by (simp add: loadWatchlist_def twoChatDisk_def)
  have "\<forall>i<length (loadWatchlist twoChatDisk).
      chatId (loadWatchlist twoChatDisk ! i) \<noteq> ''42'' \<longrightarrow>
      loadWatchlist (updateLastAlertPrice ''ABC'' ''solana'' ''42'' (15 / 16) twoChatDisk) ! i =
        loadWatchlist twoChatDisk ! i"
    using updateLastAlertPrice_touches_one_entry
      [of "''ABC''" "''solana''" "''42''" "15 / 16" twoChatDisk]
    by blast
  then have first: "loadWatchlist (updateLastAlertPrice ''ABC'' ''solana'' ''42'' (15 / 16) twoChatDisk) ! 1 =
      sampleEntry\<lparr>chatId := ''43''\<rparr>"
    by (simp add: load)
  have "\<not> list_ex (sameKey ''ABC'' ''solana'' ''99'') (loadWatchlist twoChatDisk)"
    by (simp add: load sameKey_def sampleEntry_def)
  then have "updateLastAlertPrice ''ABC'' ''solana'' ''99'' (15 / 16) twoChatDisk = twoChatDisk"
    using updateLastAlertPrice_touches_one_entry
      [of "''ABC''" "''solana''" "''99''" "15 / 16" twoChatDisk]
    by blast
  with first show ?thesis by simp
qed

end
